theory Spec2Isabelle
  imports Main
begin

section \<open>The reminders plugin of Mousey\<close>

text \<open>
  A shallow embedding of \<^verbatim>\<open>packages/bot/src/plugins/reminders/plugin.py\<close>: the class
  \<^verbatim>\<open>Reminders\<close> with its commands \<^verbatim>\<open>remind\<close> and \<^verbatim>\<open>remind cancel\<close>, the background
  coroutine \<^verbatim>\<open>_fulfill_reminders\<close> and its helpers \<^verbatim>\<open>_delete_reminder\<close> and
  \<^verbatim>\<open>_reschedule_reminder\<close>.

  The plugin is asynchronous Python. The embedding makes every effect explicit in one
  record \<open>world\<close>: the plugin's attributes (\<^verbatim>\<open>_next\<close>, \<^verbatim>\<open>_task\<close>), the clock, the
  Discord cache the plugin reads, the remote reminder store behind \<^verbatim>\<open>mousey.api\<close>, the
  scripted outcomes of remote calls, and the list of calls the loop has made.
  Exceptions are values of the type \<open>exn\<close>; a function that may raise returns
  \<open>(exn + 'a) \<times> world\<close>, so that the writes made before a raise are kept.

  The loop is cut at its one long suspension, \<^verbatim>\<open>sleep_until\<close>: \<open>loop_head\<close> runs it from
  the head of the \<^verbatim>\<open>while\<close> to the sleep, \<open>wake\<close> from the return of the sleep back to
  the head. A command is taken to run between two such steps, that is, while the loop
  is asleep, at its head, or over; the shorter suspensions inside a step are not
  interleaved with commands.
\<close>

subsection \<open>Data\<close>

text \<open>
  A \<^verbatim>\<open>datetime\<close> is the number of microseconds since an epoch, a \<^verbatim>\<open>timedelta\<close> a
  number of microseconds. Python bounds \<^verbatim>\<open>datetime\<close> by the year 9999; the bound is
  not modelled, the values added here being clock readings plus five minutes.
\<close>

type_synonym datetime = int

definition timedelta_minutes :: "int \<Rightarrow> int" where
  "timedelta_minutes m = m * 60000000"

text \<open>
  A reminder as the API returns it (a JSON object). \<open>shard_key\<close> is the partition the
  store files the row under; the plugin never reads it.
\<close>

record reminder =
  idx :: nat
  user_id :: nat
  guild_id :: nat
  channel_id :: nat
  message_id :: nat
  expires_at :: datetime
  message :: string
  shard_key :: nat

text \<open>The dictionary \<^verbatim>\<open>data\<close> that \<^verbatim>\<open>remind\<close> posts to the API.\<close>

record payload =
  p_user :: nat
  p_guild_id :: nat
  p_channel_id :: nat
  p_message_id :: nat
  p_expires_at :: datetime
  p_message :: string

text \<open>
  What the loop reads of Discord's cache. Of a channel: whether
  \<^verbatim>\<open>permissions_for(guild.me).send_messages\<close> holds, and the members for whom
  \<^verbatim>\<open>permissions_for(member).mention_everyone\<close> holds. Of a guild: its
  \<^verbatim>\<open>unavailable\<close> flag, \<^verbatim>\<open>get_channel\<close> and \<^verbatim>\<open>get_member\<close>.
\<close>

record channel =
  send_messages :: bool
  mention_everyone :: "nat set"

record guild =
  unavailable :: bool
  channels :: "nat \<rightharpoonup> channel"
  members :: "nat set"

text \<open>
  The exceptions of the plugin: \<^verbatim>\<open>NotFound\<close> of the API client, any other error of
  the API client (\<open>ApiError\<close>), \<^verbatim>\<open>discord.HTTPException\<close> with its status code, any
  other exception that leaves a call to Discord (\<open>TransportError\<close>: a connection that
  breaks, a timeout), and Python's \<^verbatim>\<open>IndexError\<close>.
\<close>

datatype exn = NotFound | ApiError | HTTPException nat | TransportError | IndexError

text \<open>
  How a call of the API client can fail other than by \<^verbatim>\<open>NotFound\<close>: the request is
  lost before the store sees it, or the store carries it out and the answer is lost. The
  client raises in both cases and cannot tell them apart.
\<close>

datatype fault = Unsent | Unanswered

text \<open>\<^verbatim>\<open>discord.AllowedMentions(everyone=..., users=..., replied_user=...)\<close>.\<close>

record allowed_mentions =
  everyone :: bool
  users :: bool
  replied_user :: bool

text \<open>
  The notification text is a function of the owner, the reminder's message, the origin
  message id (whose snowflake gives \<^verbatim>\<open>created_at\<close>) and the clock (\<^verbatim>\<open>now\<close>); the
  rendering (\<^verbatim>\<open>human_delta\<close>, \<^verbatim>\<open>PURRL\<close>) lies outside the plugin.
\<close>

datatype content = Content nat string nat datetime

text \<open>
  The calls of the loop, in the order it makes them: the return of
  \<^verbatim>\<open>sleep_until\<close>, \<^verbatim>\<open>api.delete_reminder\<close>, \<^verbatim>\<open>api.update_reminder\<close>,
  \<^verbatim>\<open>message.reply\<close> (channel, origin message, content, mentions) and
  \<^verbatim>\<open>channel.send\<close> (channel, content, mentions). Each entry records the clock and the
  reminder the loop is processing.
\<close>

datatype action =
    Woke
  | Delete
  | Update datetime
  | Reply nat nat content allowed_mentions
  | Send nat content allowed_mentions

record entry =
  at_time :: datetime
  subject :: reminder
  act :: action

text \<open>
  The state of the task \<^verbatim>\<open>self._task\<close>: at the head of the \<^verbatim>\<open>while\<close> loop (a task
  just created is there once the bot is ready), suspended in \<^verbatim>\<open>sleep_until\<close> with the
  reminder it fetched, returned, or ended by an exception.
\<close>

datatype task_state = AtLoopHead | Sleeping reminder | Returned | Raised exn

record world =
  now :: datetime
  is_closed :: bool
  shard_id :: nat
  guilds :: "nat \<rightharpoonup> guild"
  reminders :: "reminder list"
  next_id :: nat
  api_faults :: "fault option list"
  http_faults :: "exn option list"
  next_wakeup :: "datetime option"
  task :: task_state
  trace :: "entry list"

text \<open>
  \<open>reminders\<close> is the remote store, in insertion order, and \<open>next_id\<close> the next id it
  assigns. \<open>api_faults\<close> scripts the API client: every call consumes one element, and
  \<open>Some f\<close> makes that call raise an error that is not \<^verbatim>\<open>NotFound\<close>; an exhausted
  script means no fault. \<open>http_faults\<close> scripts Discord in the same way: \<open>Some e\<close> makes
  the next \<^verbatim>\<open>reply\<close> or \<^verbatim>\<open>send\<close> raise the exception \<open>e\<close>, whichever it is.
  \<open>next_wakeup\<close> is the attribute \<^verbatim>\<open>self._next\<close>.
\<close>

subsection \<open>The reminder store behind the API client\<close>

definition api_fault :: "world \<Rightarrow> fault option \<times> world" where
  "api_fault w =
     (case api_faults w of
        [] \<Rightarrow> (None, w)
      | f # fs \<Rightarrow> (f, w\<lparr>api_faults := fs\<rparr>))"

definition pending :: "nat \<Rightarrow> world \<Rightarrow> reminder list" where
  "pending shard w = sort_key expires_at (filter (\<lambda>r. shard_key r = shard) (reminders w))"

text \<open>
  Modelled from the spec: the API client \<^verbatim>\<open>mousey.api\<close> and the store it talks to are
  not part of the sources. \<open>get_earliest(shard_key) -> Reminder | absent\<close>: the reminders
  of the shard ordered by \<open>due_at\<close>, \<^verbatim>\<open>NotFound\<close> when there is none.
\<close>

definition api_get_reminders :: "nat \<Rightarrow> world \<Rightarrow> (exn + reminder list) \<times> world" where
  "api_get_reminders shard w =
     (case api_fault w of (f, w1) \<Rightarrow>
        if f \<noteq> None then (Inl ApiError, w1)
        else if pending shard w1 = [] then (Inl NotFound, w1)
        else (Inr (pending shard w1), w1))"

text \<open>Modelled from the spec: \<open>get(id) -> Reminder | NotFound\<close>.\<close>

definition api_get_reminder :: "nat \<Rightarrow> world \<Rightarrow> (exn + reminder) \<times> world" where
  "api_get_reminder i w =
     (case api_fault w of (f, w1) \<Rightarrow>
        if f \<noteq> None then (Inl ApiError, w1)
        else (case find (\<lambda>r. idx r = i) (reminders w1) of
                None \<Rightarrow> (Inl NotFound, w1)
              | Some r \<Rightarrow> (Inr r, w1)))"

text \<open>
  Modelled from the spec: \<open>delete(id) -> NotFound | ok\<close>, delete by id if present. A
  failing call has removed the row or not, according to where the fault struck.
\<close>

definition api_delete_reminder :: "nat \<Rightarrow> world \<Rightarrow> (exn + unit) \<times> world" where
  "api_delete_reminder i w =
     (case api_fault w of (f, w1) \<Rightarrow>
        (case f of
           Some Unsent \<Rightarrow> (Inl ApiError, w1)
         | Some Unanswered \<Rightarrow>
             (Inl ApiError, w1\<lparr>reminders := filter (\<lambda>r. idx r \<noteq> i) (reminders w1)\<rparr>)
         | None \<Rightarrow>
             if i \<in> idx ` set (reminders w1)
             then (Inr (), w1\<lparr>reminders := filter (\<lambda>r. idx r \<noteq> i) (reminders w1)\<rparr>)
             else (Inl NotFound, w1)))"

text \<open>
  Modelled from the spec: \<open>update_due_at(id, new_due_at) -> NotFound | ok\<close>. A failing
  call has written the new due time or not, according to where the fault struck.
\<close>

definition api_update_reminder :: "nat \<Rightarrow> datetime \<Rightarrow> world \<Rightarrow> (exn + unit) \<times> world" where
  "api_update_reminder i t w =
     (case api_fault w of (f, w1) \<Rightarrow>
        (case f of
           Some Unsent \<Rightarrow> (Inl ApiError, w1)
         | Some Unanswered \<Rightarrow>
             (Inl ApiError, w1\<lparr>reminders :=
                map (\<lambda>r. if idx r = i then r\<lparr>expires_at := t\<rparr> else r) (reminders w1)\<rparr>)
         | None \<Rightarrow>
             if i \<in> idx ` set (reminders w1)
             then (Inr (), w1\<lparr>reminders :=
                     map (\<lambda>r. if idx r = i then r\<lparr>expires_at := t\<rparr> else r) (reminders w1)\<rparr>)
             else (Inl NotFound, w1)))"

text \<open>
  Modelled from the spec: \<open>create(reminder) -> id\<close>, the id assigned by the store. A
  command runs in a guild of the process's own shard, so the row is filed under
  \<open>shard_id\<close>. A failing call has filed the row or not, according to where the fault
  struck.
\<close>

definition api_create_reminder :: "payload \<Rightarrow> world \<Rightarrow> (exn + nat) \<times> world" where
  "api_create_reminder d w =
     (case api_fault w of (f, w1) \<Rightarrow>
        (let filed =
               w1\<lparr>reminders := reminders w1 @
                    [\<lparr>idx = next_id w1, user_id = p_user d, guild_id = p_guild_id d,
                      channel_id = p_channel_id d, message_id = p_message_id d,
                      expires_at = p_expires_at d, message = p_message d,
                      shard_key = shard_id w1\<rparr>],
                  next_id := next_id w1 + 1\<rparr>
         in case f of
              Some Unsent \<Rightarrow> (Inl ApiError, w1)
            | Some Unanswered \<Rightarrow> (Inl ApiError, filed)
            | None \<Rightarrow> (Inr (next_id w1), filed)))"

subsection \<open>Clock and Discord\<close>

text \<open>
  \<^verbatim>\<open>discord.utils.sleep_until(when)\<close> sleeps for \<^verbatim>\<open>max(when - now, 0)\<close>: on return the
  clock reads \<open>when\<close>, or what it read before if that is later.
\<close>

definition sleep_until :: "datetime \<Rightarrow> world \<Rightarrow> world" where
  "sleep_until when w = w\<lparr>now := max (now w) when\<rparr>"

definition emit :: "reminder \<Rightarrow> action \<Rightarrow> world \<Rightarrow> world" where
  "emit r a w = w\<lparr>trace := trace w @ [\<lparr>at_time = now w, subject = r, act = a\<rparr>]\<rparr>"

definition http_fault :: "world \<Rightarrow> (exn + unit) \<times> world" where
  "http_fault w =
     (case http_faults w of
        [] \<Rightarrow> (Inr (), w)
      | None # fs \<Rightarrow> (Inr (), w\<lparr>http_faults := fs\<rparr>)
      | Some e # fs \<Rightarrow> (Inl e, w\<lparr>http_faults := fs\<rparr>))"

text \<open>\<^verbatim>\<open>channel.get_partial_message(message_id).reply(content, allowed_mentions=mentions)\<close>\<close>

definition reply :: "reminder \<Rightarrow> content \<Rightarrow> allowed_mentions \<Rightarrow> world \<Rightarrow> (exn + unit) \<times> world" where
  "reply r c m w = http_fault (emit r (Reply (channel_id r) (message_id r) c m) w)"

text \<open>\<^verbatim>\<open>channel.send(content, allowed_mentions=mentions)\<close>\<close>

definition send :: "reminder \<Rightarrow> content \<Rightarrow> allowed_mentions \<Rightarrow> world \<Rightarrow> (exn + unit) \<times> world" where
  "send r c m w = http_fault (emit r (Send (channel_id r) c m) w)"

subsection \<open>The helpers of the loop\<close>

text \<open>
  \<^verbatim>\<open>_delete_reminder(idx)\<close>: clears \<^verbatim>\<open>_next\<close>, deletes, and passes over \<^verbatim>\<open>NotFound\<close>.
\<close>

definition delete_reminder :: "nat \<Rightarrow> world \<Rightarrow> (exn + unit) \<times> world" where
  "delete_reminder i w =
     (case api_delete_reminder i (w\<lparr>next_wakeup := None\<rparr>) of
        (Inl e, w1) \<Rightarrow> if e = NotFound then (Inr (), w1) else (Inl e, w1)
      | (Inr u, w1) \<Rightarrow> (Inr (), w1))"

text \<open>
  \<^verbatim>\<open>_reschedule_reminder(idx, expires_at)\<close>: clears \<^verbatim>\<open>_next\<close>, updates, and passes over
  \<^verbatim>\<open>NotFound\<close>.
\<close>

definition reschedule_reminder :: "nat \<Rightarrow> datetime \<Rightarrow> world \<Rightarrow> (exn + unit) \<times> world" where
  "reschedule_reminder i t w =
     (case api_update_reminder i t (w\<lparr>next_wakeup := None\<rparr>) of
        (Inl e, w1) \<Rightarrow> if e = NotFound then (Inr (), w1) else (Inl e, w1)
      | (Inr u, w1) \<Rightarrow> (Inr (), w1))"

subsection \<open>The loop\<close>

text \<open>
  The body of the loop after \<^verbatim>\<open>sleep_until\<close> has returned, up to the \<^verbatim>\<open>continue\<close> or
  the end of the body. \<open>Inr ()\<close> is the way back to the head of the loop, \<open>Inl e\<close> an
  exception that leaves the coroutine.
\<close>

definition deliver :: "reminder \<Rightarrow> guild \<Rightarrow> channel \<Rightarrow> world \<Rightarrow> (exn + unit) \<times> world" where
  "deliver r g ch w =
     (let c = Content (user_id r) (message r) (message_id r) (now w);
          ev = (if user_id r \<in> members g then user_id r \<in> mention_everyone ch else False);
          m = \<lparr>everyone = ev, users = True, replied_user = True\<rparr>
      in case reply r c m w of
           (Inr u, w1) \<Rightarrow> (Inr (), w1)
         | (Inl e, w1) \<Rightarrow>
             (case e of
                HTTPException code \<Rightarrow>
                  (case send r c m w1 of
                     (Inr u, w2) \<Rightarrow> (Inr (), w2)
                   | (Inl e2, w2) \<Rightarrow>
                       (case e2 of
                          HTTPException code2 \<Rightarrow> (Inr (), w2)
                        | _ \<Rightarrow> (Inl e2, w2)))
              | _ \<Rightarrow> (Inl e, w1)))"

definition fire :: "reminder \<Rightarrow> world \<Rightarrow> (exn + unit) \<times> world" where
  "fire r w =
     (case guilds w (guild_id r) of
        None \<Rightarrow> delete_reminder (idx r) (emit r Delete w)
      | Some g \<Rightarrow>
          if unavailable g
          then reschedule_reminder (idx r) (expires_at r + timedelta_minutes 5)
                 (emit r (Update (expires_at r + timedelta_minutes 5)) w)
          else (case channels g (channel_id r) of
                  None \<Rightarrow> delete_reminder (idx r) (emit r Delete w)
                | Some ch \<Rightarrow>
                    if \<not> send_messages ch
                    then delete_reminder (idx r) (emit r Delete w)
                    else (case deliver r g ch w of
                            (Inl e, w1) \<Rightarrow> (Inl e, w1)
                          | (Inr u, w1) \<Rightarrow> delete_reminder (idx r) (emit r Delete w1))))"

text \<open>
  From the head of the \<^verbatim>\<open>while\<close> loop to the suspension in \<^verbatim>\<open>sleep_until\<close>: the loop
  condition, the fetch, \<^verbatim>\<open>resp[0]\<close> and the write of \<^verbatim>\<open>_next\<close>.
\<close>

definition loop_head :: "world \<Rightarrow> world" where
  "loop_head w =
     (if is_closed w then w\<lparr>task := Returned\<rparr>
      else (case api_get_reminders (shard_id w) w of
              (Inl e, w1) \<Rightarrow>
                if e = NotFound then w1\<lparr>task := Returned\<rparr> else w1\<lparr>task := Raised e\<rparr>
            | (Inr resp, w1) \<Rightarrow>
                (case resp of
                   [] \<Rightarrow> w1\<lparr>task := Raised IndexError\<rparr>
                 | r # rest \<Rightarrow> w1\<lparr>next_wakeup := Some (expires_at r), task := Sleeping r\<rparr>)))"

text \<open>
  The return of \<^verbatim>\<open>sleep_until\<close> and the rest of the body, back to the head of the loop
  or out of the coroutine with an exception.
\<close>

definition wake :: "world \<Rightarrow> world" where
  "wake w =
     (case task w of
        Sleeping r \<Rightarrow>
          (case fire r (emit r Woke (sleep_until (expires_at r) w)) of
             (Inl e, w1) \<Rightarrow> w1\<lparr>task := Raised e\<rparr>
           | (Inr u, w1) \<Rightarrow> w1\<lparr>task := AtLoopHead\<rparr>)
      | _ \<Rightarrow> w)"

text \<open>
  \<^verbatim>\<open>_fulfill_reminders\<close>, run undisturbed for a number of steps; the loop may run for
  ever (a guild that stays unavailable is rescheduled again and again), so the number of
  steps is bounded by the first argument.
\<close>

fun fulfill_reminders :: "nat \<Rightarrow> world \<Rightarrow> world" where
  "fulfill_reminders 0 w = w"
| "fulfill_reminders (Suc n) w =
     (case task w of
        AtLoopHead \<Rightarrow> fulfill_reminders n (loop_head w)
      | Sleeping r \<Rightarrow> fulfill_reminders n (wake w)
      | Returned \<Rightarrow> w
      | Raised e \<Rightarrow> w)"

subsection \<open>The commands\<close>

text \<open>
  \<^verbatim>\<open>self._task.cancel(); self._task = create_task(self._fulfill_reminders())\<close>: the
  task in \<^verbatim>\<open>sleep_until\<close> is dropped and a new one starts at the head of the loop.
\<close>

definition restart :: "world \<Rightarrow> world" where
  "restart w = w\<lparr>task := AtLoopHead\<rparr>"

record ctx =
  ctx_author :: nat
  ctx_guild :: nat
  ctx_channel :: nat
  ctx_message :: nat

datatype time_arg = Timedelta int | Datetime datetime

text \<open>
  What the commands send back: the acknowledgement of \<^verbatim>\<open>remind\<close> (the text
  \<^verbatim>\<open>about\<close>, the time as given, the id), and the two answers of \<^verbatim>\<open>remind cancel\<close>.
\<close>

datatype response = WillRemind string time_arg nat | Deleted nat | UnableToDelete

definition remind :: "ctx \<Rightarrow> time_arg \<Rightarrow> string option \<Rightarrow> world \<Rightarrow> (exn + response) \<times> world" where
  "remind c time msg w =
     (let expires = (case time of Timedelta d \<Rightarrow> now w + d | Datetime t \<Rightarrow> t);
          text = (case msg of None \<Rightarrow> [] | Some s \<Rightarrow> s);
          truthy = (text \<noteq> []);
          d = \<lparr>p_user = ctx_author c, p_guild_id = ctx_guild c, p_channel_id = ctx_channel c,
               p_message_id = ctx_message c, p_expires_at = expires,
               p_message = (if truthy then text else ''something'')\<rparr>
      in case api_create_reminder d w of
           (Inl e, w1) \<Rightarrow> (Inl e, w1)
         | (Inr i, w1) \<Rightarrow>
             (Inr (WillRemind (if truthy then ''about '' @ text @ '' '' else [])
                     time i),
              if (case next_wakeup w1 of None \<Rightarrow> True | Some n \<Rightarrow> n > expires)
              then restart w1 else w1))"

text \<open>The \<^verbatim>\<open>for\<close> loop of \<^verbatim>\<open>remind cancel\<close>, with the counter \<^verbatim>\<open>deleted\<close>.\<close>

fun cancel_each :: "nat \<Rightarrow> nat list \<Rightarrow> nat \<Rightarrow> world \<Rightarrow> (exn + nat) \<times> world" where
  "cancel_each author [] deleted w = (Inr deleted, w)"
| "cancel_each author (i # rest) deleted w =
     (case api_get_reminder i w of
        (Inl e, w1) \<Rightarrow>
          if e = NotFound then cancel_each author rest deleted w1 else (Inl e, w1)
      | (Inr resp, w1) \<Rightarrow>
          if user_id resp \<noteq> author then cancel_each author rest deleted w1
          else (case api_delete_reminder i w1 of
                  (Inl e, w2) \<Rightarrow>
                    if e = NotFound then cancel_each author rest deleted w2 else (Inl e, w2)
                | (Inr u, w2) \<Rightarrow> cancel_each author rest (deleted + 1) w2))"

definition remind_cancel :: "ctx \<Rightarrow> nat list \<Rightarrow> world \<Rightarrow> (exn + response) \<times> world" where
  "remind_cancel c ids w =
     (case cancel_each (ctx_author c) ids 0 w of
        (Inl e, w1) \<Rightarrow> (Inl e, w1)
      | (Inr deleted, w1) \<Rightarrow>
          if deleted \<noteq> 0
          then (Inr (Deleted deleted), if next_wakeup w1 \<noteq> None then restart w1 else w1)
          else (Inr UnableToDelete, w1))"

subsection \<open>Vocabulary of the properties\<close>

text \<open>
  The destinations the loop gives up on: \<^verbatim>\<open>get_guild\<close> finds no guild; or the guild
  is there and available, and \<^verbatim>\<open>get_channel\<close> finds no channel or the bot may not
  send to it. A guild that is there but unavailable is the other case, the temporary one.
\<close>

definition permanently_unavailable :: "reminder \<Rightarrow> world \<Rightarrow> bool" where
  "permanently_unavailable r w =
     (case guilds w (guild_id r) of
        None \<Rightarrow> True
      | Some g \<Rightarrow> \<not> unavailable g \<and>
          (case channels g (channel_id r) of None \<Rightarrow> True | Some ch \<Rightarrow> \<not> send_messages ch))"

text \<open>The mention policy the loop computes for a reminder in a channel of a guild.\<close>

definition mentions_for :: "reminder \<Rightarrow> guild \<Rightarrow> channel \<Rightarrow> allowed_mentions" where
  "mentions_for r g ch =
     \<lparr>everyone = (user_id r \<in> members g \<and> user_id r \<in> mention_everyone ch),
      users = True, replied_user = True\<rparr>"

text \<open>
  The two delivery attempts at clock \<open>t\<close>, as they appear in the trace: the same content
  and the same mention policy in both. Also: whether an exception is a
  \<^verbatim>\<open>discord.HTTPException\<close>, and whether the next call to Discord, by the script,
  returns or raises one (the outcomes the loop's second \<^verbatim>\<open>except\<close> lets pass).
\<close>

definition reply_entry :: "datetime \<Rightarrow> reminder \<Rightarrow> guild \<Rightarrow> channel \<Rightarrow> entry" where
  "reply_entry t r g ch =
     \<lparr>at_time = t, subject = r,
      act = Reply (channel_id r) (message_id r)
              (Content (user_id r) (message r) (message_id r) t) (mentions_for r g ch)\<rparr>"

definition send_entry :: "datetime \<Rightarrow> reminder \<Rightarrow> guild \<Rightarrow> channel \<Rightarrow> entry" where
  "send_entry t r g ch =
     \<lparr>at_time = t, subject = r,
      act = Send (channel_id r)
              (Content (user_id r) (message r) (message_id r) t) (mentions_for r g ch)\<rparr>"

definition is_http :: "exn \<Rightarrow> bool" where
  "is_http e = (case e of HTTPException code \<Rightarrow> True | _ \<Rightarrow> False)"

definition swallowed :: "exn option list \<Rightarrow> bool" where
  "swallowed fs = (case fs of [] \<Rightarrow> True | None # rest \<Rightarrow> True | Some e # rest \<Rightarrow> is_http e)"

subsection \<open>Sample states\<close>

text \<open>
  A guild with one channel the bot may write to and two members, of whom the first may
  mention everyone; two reminders in that channel, the later one stored first.
\<close>

definition lobby :: channel where
  "lobby = \<lparr>send_messages = True, mention_everyone = {10}\<rparr>"

definition home :: guild where
  "home = \<lparr>unavailable = False, channels = [1000 \<mapsto> lobby], members = {10, 11}\<rparr>"

definition tea :: reminder where
  "tea = \<lparr>idx = 1, user_id = 10, guild_id = 100, channel_id = 1000, message_id = 5000,
          expires_at = 60000000, message = ''tea'', shard_key = 0\<rparr>"

definition bus :: reminder where
  "bus = \<lparr>idx = 2, user_id = 11, guild_id = 100, channel_id = 1000, message_id = 5001,
          expires_at = 30000000, message = ''bus'', shard_key = 0\<rparr>"

definition world0 :: world where
  "world0 = \<lparr>now = 0, is_closed = False, shard_id = 0, guilds = [100 \<mapsto> home],
             reminders = [tea, bus], next_id = 3, api_faults = [], http_faults = [],
             next_wakeup = None, task = AtLoopHead, trace = []\<rparr>"

text \<open>
  The loop asleep on the earlier reminder; the same with the guild gone from the cache;
  with the guild unavailable and the clock far past the due time; with Discord refusing
  the reply as to an unknown message and then losing the connection; with Discord
  losing the connection at once; with Discord refusing the next two sends.
\<close>

definition asleep :: world where
  "asleep = world0\<lparr>next_wakeup := Some 30000000, task := Sleeping bus\<rparr>"

definition orphaned :: world where
  "orphaned = asleep\<lparr>guilds := Map.empty\<rparr>"

definition away :: guild where
  "away = home\<lparr>unavailable := True\<rparr>"

definition outage :: world where
  "outage = asleep\<lparr>now := 400000000, guilds := [100 \<mapsto> away]\<rparr>"

definition dropped :: world where
  "dropped = asleep\<lparr>http_faults := [Some (HTTPException 404), Some TransportError]\<rparr>"

definition cut_off :: world where
  "cut_off = asleep\<lparr>http_faults := [Some TransportError]\<rparr>"

definition flaky :: world where
  "flaky = asleep\<lparr>http_faults := [Some (HTTPException 400), Some (HTTPException 403)]\<rparr>"

text \<open>The rows a cancellation by \<open>author\<close> of the ids \<open>ids\<close> is entitled to remove.\<close>

definition own :: "nat \<Rightarrow> nat list \<Rightarrow> reminder \<Rightarrow> bool" where
  "own author ids r = (idx r \<in> set ids \<and> user_id r = author)"

text \<open>The owner of the first sample reminder, writing in the sample channel.\<close>

definition alice :: ctx where
  "alice = \<lparr>ctx_author = 10, ctx_guild = 100, ctx_channel = 1000, ctx_message = 6000\<rparr>"

text \<open>
  The reminder the loop should be waiting on: a row of the loop's shard that no row of
  the shard precedes in due time.
\<close>

definition earliest :: "reminder \<Rightarrow> world \<Rightarrow> bool" where
  "earliest r w =
     (r \<in> set (reminders w) \<and> shard_key r = shard_id w \<and>
      (\<forall>x \<in> set (reminders w). shard_key x = shard_id w \<longrightarrow> expires_at r \<le> expires_at x))"

text \<open>
  The reminders the loop has woken for, in the order of the trace. \<open>acted r w w'\<close>: from
  \<open>w\<close> to \<open>w'\<close> the loop has only made calls for \<open>r\<close> at the clock of \<open>w\<close>, and every
  row of the store is a row of before, or has the due time of \<open>r\<close> plus five minutes.
  \<open>in_order\<close> is the invariant of the loop: its wakes are in the order of the due times,
  no call for a reminder precedes its due time, no row of the shard is due before a
  reminder the loop has acted on, and a sleeping loop sleeps on an earliest row.
\<close>

definition woken :: "entry list \<Rightarrow> reminder list" where
  "woken tr = map subject (filter (\<lambda>e. act e = Woke) tr)"

definition acted :: "reminder \<Rightarrow> world \<Rightarrow> world \<Rightarrow> bool" where
  "acted r w w' =
     (shard_id w' = shard_id w \<and> now w' = now w \<and>
      (\<exists>es. trace w' = trace w @ es \<and>
            (\<forall>e \<in> set es. subject e = r \<and> at_time e = now w \<and> act e \<noteq> Woke)) \<and>
      (\<forall>x \<in> set (reminders w'). \<exists>y \<in> set (reminders w). shard_key x = shard_key y \<and>
            (x = y \<or> expires_at x = expires_at r + timedelta_minutes 5)))"


text \<open>The due time \<^verbatim>\<open>expires\<close> that \<^verbatim>\<open>remind\<close> computes, and the row the store files.\<close>

definition due_of :: "time_arg \<Rightarrow> world \<Rightarrow> datetime" where
  "due_of time w = (case time of Timedelta d \<Rightarrow> now w + d | Datetime t \<Rightarrow> t)"

definition created :: "ctx \<Rightarrow> time_arg \<Rightarrow> string option \<Rightarrow> world \<Rightarrow> reminder" where
  "created c time msg w =
     \<lparr>idx = next_id w, user_id = ctx_author c, guild_id = ctx_guild c,
      channel_id = ctx_channel c, message_id = ctx_message c, expires_at = due_of time w,
      message = (case msg of None \<Rightarrow> ''something'' | Some s \<Rightarrow> if s = [] then ''something'' else s),
      shard_key = shard_id w\<rparr>"

text \<open>
  The owner of the second sample reminder; a third reminder, due before the other two;
  the loop asleep on the only reminder of the store; that state after the owner has
  cancelled the reminder and the new task has run to its end; the same after a
  \<^verbatim>\<open>remind\<close> for a later time; the sample state with an empty store; with the API
  client failing on its next call, at the head of the loop and asleep.
\<close>

definition bob :: ctx where
  "bob = \<lparr>ctx_author = 11, ctx_guild = 100, ctx_channel = 1000, ctx_message = 6001\<rparr>"

definition nap :: reminder where
  "nap = \<lparr>idx = 3, user_id = 10, guild_id = 100, channel_id = 1000, message_id = 6000,
          expires_at = 10000000, message = ''nap'', shard_key = 0\<rparr>"

definition lonely :: world where
  "lonely = asleep\<lparr>reminders := [bus]\<rparr>"

definition cancelled :: world where
  "cancelled = loop_head (snd (remind_cancel bob [2] lonely))"

definition forgotten :: world where
  "forgotten = snd (remind alice (Datetime 60000000) (Some ''tea'') cancelled)"

definition idle :: world where
  "idle = world0\<lparr>reminders := []\<rparr>"

definition broken :: world where
  "broken = world0\<lparr>api_faults := [Some Unsent]\<rparr>"

definition stalled :: world where
  "stalled = asleep\<lparr>api_faults := [Some Unanswered]\<rparr>"

section \<open>Properties\<close>

lemmas sample_defs = world0_def asleep_def orphaned_def away_def outage_def flaky_def
  dropped_def cut_off_def
  home_def lobby_def tea_def bus_def nap_def alice_def bob_def idle_def broken_def stalled_def
  lonely_def

subsection \<open>The store and the helpers\<close>

lemma api_fault_none [simp]: "api_faults w = [] \<Longrightarrow> api_fault w = (None, w)"
  by (simp add: api_fault_def)

lemma delete_reminder_not_found:
  "fst (api_delete_reminder i (w\<lparr>next_wakeup := None\<rparr>)) = Inl NotFound \<Longrightarrow>
   fst (delete_reminder i w) = Inr () \<and> reminders (snd (delete_reminder i w)) = reminders w
   \<and> trace (snd (delete_reminder i w)) = trace w"
  by (auto simp: delete_reminder_def api_delete_reminder_def api_fault_def
           split: prod.splits list.splits if_splits option.splits fault.splits)

lemma delete_reminder_ok:
  "api_faults w = [] \<Longrightarrow>
   delete_reminder i w =
     (Inr (), w\<lparr>next_wakeup := None, reminders := filter (\<lambda>r. idx r \<noteq> i) (reminders w)\<rparr>)"
proof -
  assume nf: "api_faults w = []"
  have "i \<notin> idx ` set (reminders w) \<Longrightarrow> filter (\<lambda>r. idx r \<noteq> i) (reminders w) = reminders w"
    by (rule filter_True) auto
  with nf show ?thesis
    by (auto simp: delete_reminder_def api_delete_reminder_def)
qed

text \<open>
  C6. \<^verbatim>\<open>_delete_reminder\<close> never raises when the store answers \<^verbatim>\<open>NotFound\<close>: it
  returns normally and the store is as it was. When the API client has no fault scripted,
  it returns normally for every id, and a second call on the resulting state returns
  normally again and changes nothing.
\<close>

theorem delete_reminder_total_idempotent:
  "(fst (api_delete_reminder i (w\<lparr>next_wakeup := None\<rparr>)) = Inl NotFound \<longrightarrow>
      fst (delete_reminder i w) = Inr () \<and> reminders (snd (delete_reminder i w)) = reminders w)
   \<and> (api_faults w = [] \<longrightarrow>
      fst (delete_reminder i w) = Inr () \<and>
      delete_reminder i (snd (delete_reminder i w)) = (Inr (), snd (delete_reminder i w)))"
  by (auto simp: delete_reminder_not_found delete_reminder_ok)

theorem delete_reminder_total_idempotent_witness:
  "fst (api_delete_reminder 7 (world0\<lparr>next_wakeup := None\<rparr>)) = Inl NotFound
   \<and> api_faults world0 = []
   \<and> fst (delete_reminder 7 world0) = Inr ()
   \<and> reminders (snd (delete_reminder 7 world0)) = reminders world0
   \<and> delete_reminder 7 (snd (delete_reminder 7 world0)) = (Inr (), snd (delete_reminder 7 world0))"
proof -
  have a: "fst (api_delete_reminder 7 (world0\<lparr>next_wakeup := None\<rparr>)) = Inl NotFound"
    by (simp add: api_delete_reminder_def api_fault_def world0_def tea_def bus_def)
  have b: "api_faults world0 = []"
    by (simp add: world0_def)
  from a b delete_reminder_total_idempotent [of 7 world0] show ?thesis
    by blast
qed

lemma emit_simps [simp]:
  "api_faults (emit r a w) = api_faults w"
  "reminders (emit r a w) = reminders w"
  "guilds (emit r a w) = guilds w"
  "now (emit r a w) = now w"
  "http_faults (emit r a w) = http_faults w"
  "trace (emit r a w) = trace w @ [\<lparr>at_time = now w, subject = r, act = a\<rparr>]"
  by (simp_all add: emit_def)

lemma sleep_until_simps [simp]:
  "api_faults (sleep_until t w) = api_faults w"
  "reminders (sleep_until t w) = reminders w"
  "guilds (sleep_until t w) = guilds w"
  "now (sleep_until t w) = max (now w) t"
  "http_faults (sleep_until t w) = http_faults w"
  "trace (sleep_until t w) = trace w"
  by (simp_all add: sleep_until_def)

lemma fire_guild_gone:
  "guilds w (guild_id r) = None \<Longrightarrow> api_faults w = [] \<Longrightarrow>
   fire r w = (Inr (), (emit r Delete w)\<lparr>next_wakeup := None,
       reminders := filter (\<lambda>x. idx x \<noteq> idx r) (reminders w)\<rparr>)"
  by (simp add: fire_def delete_reminder_ok)

lemma fire_channel_gone:
  "guilds w (guild_id r) = Some g \<Longrightarrow> \<not> unavailable g \<Longrightarrow>
   channels g (channel_id r) = None \<Longrightarrow> api_faults w = [] \<Longrightarrow>
   fire r w = (Inr (), (emit r Delete w)\<lparr>next_wakeup := None,
       reminders := filter (\<lambda>x. idx x \<noteq> idx r) (reminders w)\<rparr>)"
  by (simp add: fire_def delete_reminder_ok)

lemma fire_forbidden:
  "guilds w (guild_id r) = Some g \<Longrightarrow> \<not> unavailable g \<Longrightarrow>
   channels g (channel_id r) = Some ch \<Longrightarrow> \<not> send_messages ch \<Longrightarrow> api_faults w = [] \<Longrightarrow>
   fire r w = (Inr (), (emit r Delete w)\<lparr>next_wakeup := None,
       reminders := filter (\<lambda>x. idx x \<noteq> idx r) (reminders w)\<rparr>)"
  by (simp add: fire_def delete_reminder_ok)

subsection \<open>What the loop does on waking\<close>

lemma fire_permanent:
  "permanently_unavailable r w \<Longrightarrow> api_faults w = [] \<Longrightarrow>
   fire r w = (Inr (), (emit r Delete w)\<lparr>next_wakeup := None,
       reminders := filter (\<lambda>x. idx x \<noteq> idx r) (reminders w)\<rparr>)"
  by (auto simp: permanently_unavailable_def fire_guild_gone fire_channel_gone fire_forbidden split: option.splits)

text \<open>
  C3. When the loop wakes for a reminder whose destination is permanently unavailable
  (no guild; or, in an available guild, no channel or no permission to send), it calls
  the store's delete and nothing else: no reply and no send is attempted, the reminder is
  gone from the store, and the loop is back at its head.
\<close>

theorem permanent_failure_deletes_without_delivery:
  assumes "task w = Sleeping r" and "permanently_unavailable r w" and "api_faults w = []"
  shows "trace (wake w) = trace w @
           [\<lparr>at_time = max (now w) (expires_at r), subject = r, act = Woke\<rparr>,
            \<lparr>at_time = max (now w) (expires_at r), subject = r, act = Delete\<rparr>]
         \<and> reminders (wake w) = filter (\<lambda>x. idx x \<noteq> idx r) (reminders w)
         \<and> task (wake w) = AtLoopHead"
proof -
  let ?w1 = "emit r Woke (sleep_until (expires_at r) w)"
  have p: "permanently_unavailable r ?w1"
    using assms(2) by (simp add: permanently_unavailable_def)
  have "api_faults ?w1 = []" using assms(3) by simp
  from fire_permanent [OF p this] assms(1) show ?thesis
    by (simp add: wake_def)
qed

theorem permanent_failure_deletes_without_delivery_witness:
  "task orphaned = Sleeping bus \<and> permanently_unavailable bus orphaned \<and> api_faults orphaned = []
   \<and> trace (wake orphaned) =
        [\<lparr>at_time = 30000000, subject = bus, act = Woke\<rparr>,
         \<lparr>at_time = 30000000, subject = bus, act = Delete\<rparr>]
   \<and> reminders (wake orphaned) = [tea]
   \<and> task (wake orphaned) = AtLoopHead"
proof -
  have h1: "task orphaned = Sleeping bus" by (simp add: sample_defs)
  have h2: "permanently_unavailable bus orphaned"
    by (simp add: permanently_unavailable_def sample_defs)
  have h3: "api_faults orphaned = []" by (simp add: sample_defs)
  from permanent_failure_deletes_without_delivery [OF h1 h2 h3] h1 h2 h3 show ?thesis
    by (simp add: sample_defs)
qed

lemma reschedule_reminder_ok:
  "api_faults w = [] \<Longrightarrow>
   reschedule_reminder i t w =
     (Inr (), w\<lparr>next_wakeup := None,
        reminders := map (\<lambda>r. if idx r = i then r\<lparr>expires_at := t\<rparr> else r) (reminders w)\<rparr>)"
proof -
  assume nf: "api_faults w = []"
  have "i \<notin> idx ` set (reminders w) \<Longrightarrow>
        map (\<lambda>r. if idx r = i then r\<lparr>expires_at := t\<rparr> else r) (reminders w) = reminders w"
    by (rule map_idI) auto
  with nf show ?thesis
    by (auto simp: reschedule_reminder_def api_update_reminder_def)
qed

lemma idx_postponed:
  "map idx (map (\<lambda>x. if idx x = i then x\<lparr>expires_at := t\<rparr> else x) xs) = map idx xs"
  by (induction xs) auto

lemma idx_set_postponed:
  "idx ` set (map (\<lambda>x. if idx x = i then x\<lparr>expires_at := t\<rparr> else x) xs) = idx ` set xs"
  using idx_postponed [of i t xs] by (metis set_map)

lemma fire_unavailable:
  "guilds w (guild_id r) = Some g \<Longrightarrow> unavailable g \<Longrightarrow> api_faults w = [] \<Longrightarrow>
   fire r w = (Inr (), (emit r (Update (expires_at r + timedelta_minutes 5)) w)\<lparr>next_wakeup := None,
       reminders := map (\<lambda>x. if idx x = idx r
                               then x\<lparr>expires_at := expires_at r + timedelta_minutes 5\<rparr> else x)
                      (reminders w)\<rparr>)"
  by (simp add: fire_def reschedule_reminder_ok)

lemma wake_unavailable:
  assumes "task w = Sleeping r" and "guilds w (guild_id r) = Some g" and "unavailable g"
    and "api_faults w = []"
  shows "wake w = w\<lparr>now := max (now w) (expires_at r),
           trace := trace w @
             [\<lparr>at_time = max (now w) (expires_at r), subject = r, act = Woke\<rparr>,
              \<lparr>at_time = max (now w) (expires_at r), subject = r,
               act = Update (expires_at r + timedelta_minutes 5)\<rparr>],
           next_wakeup := None,
           reminders := map (\<lambda>x. if idx x = idx r
                               then x\<lparr>expires_at := expires_at r + timedelta_minutes 5\<rparr> else x)
                          (reminders w),
           task := AtLoopHead\<rparr>"
proof -
  let ?w1 = "emit r Woke (sleep_until (expires_at r) w)"
  have "guilds ?w1 (guild_id r) = Some g" "api_faults ?w1 = []"
    using assms by simp_all
  from fire_unavailable [OF this(1) assms(3) this(2)] assms(1) show ?thesis
    by (simp add: wake_def emit_def sleep_until_def)
qed

text \<open>
  C4. When the loop wakes for a reminder whose guild is temporarily unavailable, it makes
  one call, the store's update with the due time moved by five minutes: it neither
  replies, sends nor deletes. The reminder is still in the store, with the new due time,
  and the loop is back at its head, where it fetches again.
\<close>

theorem unavailable_guild_postpones:
  assumes "task w = Sleeping r" and "guilds w (guild_id r) = Some g" and "unavailable g"
    and "api_faults w = []" and "r \<in> set (reminders w)"
  shows "trace (wake w) = trace w @
             [\<lparr>at_time = max (now w) (expires_at r), subject = r, act = Woke\<rparr>,
              \<lparr>at_time = max (now w) (expires_at r), subject = r,
               act = Update (expires_at r + 300000000)\<rparr>]
         \<and> r\<lparr>expires_at := expires_at r + 300000000\<rparr> \<in> set (reminders (wake w))
         \<and> idx ` set (reminders (wake w)) = idx ` set (reminders w)
         \<and> length (reminders (wake w)) = length (reminders w)
         \<and> task (wake w) = AtLoopHead"
proof -
  note eq = wake_unavailable [OF assms(1-4)]
  have rs: "reminders (wake w) =
      map (\<lambda>x. if idx x = idx r then x\<lparr>expires_at := expires_at r + timedelta_minutes 5\<rparr> else x)
        (reminders w)"
    by (simp add: eq)
  have "r\<lparr>expires_at := expires_at r + 300000000\<rparr> \<in> set (reminders (wake w))"
    using assms(5) by (subst eq) (force simp: timedelta_minutes_def)
  moreover have "idx ` set (reminders (wake w)) = idx ` set (reminders w)"
    by (simp only: rs idx_set_postponed)
  ultimately show ?thesis
    by (simp add: eq timedelta_minutes_def)
qed

theorem unavailable_guild_postpones_witness:
  "task outage = Sleeping bus \<and> guilds outage (guild_id bus) = Some away \<and> unavailable away
   \<and> api_faults outage = [] \<and> bus \<in> set (reminders outage)
   \<and> trace (wake outage) =
        [\<lparr>at_time = 400000000, subject = bus, act = Woke\<rparr>,
         \<lparr>at_time = 400000000, subject = bus, act = Update 330000000\<rparr>]
   \<and> bus\<lparr>expires_at := 330000000\<rparr> \<in> set (reminders (wake outage))
   \<and> task (wake outage) = AtLoopHead"
proof -
  have h1: "task outage = Sleeping bus" by (simp add: sample_defs)
  have h2: "guilds outage (guild_id bus) = Some away" by (simp add: sample_defs)
  have h3: "unavailable away" by (simp add: sample_defs)
  have h4: "api_faults outage = []" by (simp add: sample_defs)
  have h5: "bus \<in> set (reminders outage)" by (simp add: sample_defs)
  have e: "expires_at bus = 30000000" "now outage = 400000000" "trace outage = []"
    by (simp_all add: sample_defs)
  from unavailable_guild_postpones [OF h1 h2 h3 h4 h5] h1 h2 h3 h4 h5 show ?thesis
    by (simp add: e)
qed

text \<open>
  C10. The due time written back on postponement is the fetched due time plus five
  minutes (300000000 microseconds); the clock does not enter. So when the loop wakes
  more than five minutes after the due time, the postponed due time is already in the
  past.
\<close>

theorem postponed_due_is_fetched_due_plus_five_minutes:
  assumes "task w = Sleeping r" and "guilds w (guild_id r) = Some g" and "unavailable g"
    and "api_faults w = []"
  shows "reminders (wake w) =
           map (\<lambda>x. if idx x = idx r then x\<lparr>expires_at := expires_at r + 300000000\<rparr> else x)
             (reminders w)
         \<and> (expires_at r + 300000000 < now w \<longrightarrow>
              (\<forall>x \<in> set (reminders (wake w)). idx x = idx r \<longrightarrow> expires_at x < now (wake w)))"
  by (subst wake_unavailable [OF assms])+ (auto simp: timedelta_minutes_def)

theorem postponed_due_is_fetched_due_plus_five_minutes_witness:
  "task outage = Sleeping bus \<and> guilds outage (guild_id bus) = Some away \<and> unavailable away
   \<and> api_faults outage = [] \<and> expires_at bus + 300000000 < now outage
   \<and> reminders (wake outage) = [tea, bus\<lparr>expires_at := 330000000\<rparr>]
   \<and> expires_at (bus\<lparr>expires_at := 330000000\<rparr>) < now (wake outage)"
proof -
  have h1: "task outage = Sleeping bus" by (simp add: sample_defs)
  have h2: "guilds outage (guild_id bus) = Some away" by (simp add: sample_defs)
  have h3: "unavailable away" by (simp add: sample_defs)
  have h4: "api_faults outage = []" by (simp add: sample_defs)
  have h5: "expires_at bus + 300000000 < now outage" by (simp add: sample_defs)
  have e: "reminders outage = [tea, bus]" "idx tea \<noteq> idx bus" "expires_at bus = 30000000"
    by (simp_all add: sample_defs)
  from postponed_due_is_fetched_due_plus_five_minutes [OF h1 h2 h3 h4] h5
  have r: "reminders (wake outage) = [tea, bus\<lparr>expires_at := 330000000\<rparr>]"
    and p: "\<forall>x \<in> set (reminders (wake outage)). idx x = idx bus \<longrightarrow> expires_at x < now (wake outage)"
    by (simp_all add: e)
  from p have "expires_at (bus\<lparr>expires_at := 330000000\<rparr>) < now (wake outage)"
    unfolding r by simp
  with h1 h2 h3 h4 h5 r show ?thesis
    by blast
qed

lemma deliver_replied:
  "http_faults w = [] \<or> (\<exists>rest. http_faults w = None # rest) \<Longrightarrow>
   deliver r g ch w =
     (Inr (), w\<lparr>trace := trace w @ [reply_entry (now w) r g ch],
                http_faults := tl (http_faults w)\<rparr>)"
  by (auto simp: deliver_def reply_def send_def http_fault_def emit_def mentions_for_def
        reply_entry_def Let_def split: option.splits)

lemma deliver_fallback:
  "http_faults w = Some (HTTPException code) # rest \<Longrightarrow> swallowed rest \<Longrightarrow>
   deliver r g ch w =
     (Inr (), w\<lparr>trace := trace w @ [reply_entry (now w) r g ch, send_entry (now w) r g ch],
                http_faults := tl rest\<rparr>)"
  by (cases rest)
     (auto simp: deliver_def reply_def send_def http_fault_def emit_def mentions_for_def
        reply_entry_def send_entry_def swallowed_def is_http_def Let_def
        split: option.splits exn.splits)

lemma deliver_fallback_raises:
  "http_faults w = Some (HTTPException code) # Some e # rest \<Longrightarrow> \<not> is_http e \<Longrightarrow>
   deliver r g ch w =
     (Inl e, w\<lparr>trace := trace w @ [reply_entry (now w) r g ch, send_entry (now w) r g ch],
               http_faults := rest\<rparr>)"
  by (auto simp: deliver_def reply_def send_def http_fault_def emit_def mentions_for_def
        reply_entry_def send_entry_def is_http_def Let_def split: exn.splits)

lemma deliver_reply_raises:
  "http_faults w = Some e # rest \<Longrightarrow> \<not> is_http e \<Longrightarrow>
   deliver r g ch w =
     (Inl e, w\<lparr>trace := trace w @ [reply_entry (now w) r g ch], http_faults := rest\<rparr>)"
  by (auto simp: deliver_def reply_def send_def http_fault_def emit_def mentions_for_def
        reply_entry_def is_http_def Let_def split: exn.splits)

lemma fire_delivering:
  assumes "guilds w (guild_id r) = Some g" and "\<not> unavailable g"
    and "channels g (channel_id r) = Some ch" and "send_messages ch"
  shows "fire r w =
     (case deliver r g ch w of
        (Inl e, w1) \<Rightarrow> (Inl e, w1)
      | (Inr u, w1) \<Rightarrow> delete_reminder (idx r) (emit r Delete w1))"
  using assms by (simp add: fire_def)

lemma wake_delivering:
  assumes "task w = Sleeping r" and "guilds w (guild_id r) = Some g" and "\<not> unavailable g"
    and "channels g (channel_id r) = Some ch" and "send_messages ch"
  shows "wake w =
     (case deliver r g ch (emit r Woke (sleep_until (expires_at r) w)) of
        (Inl e, w1) \<Rightarrow> w1\<lparr>task := Raised e\<rparr>
      | (Inr u, w1) \<Rightarrow>
          (case delete_reminder (idx r) (emit r Delete w1) of
             (Inl e, w2) \<Rightarrow> w2\<lparr>task := Raised e\<rparr>
           | (Inr u, w2) \<Rightarrow> w2\<lparr>task := AtLoopHead\<rparr>))"
proof -
  let ?w1 = "emit r Woke (sleep_until (expires_at r) w)"
  have "guilds ?w1 (guild_id r) = Some g"
    using assms(2) by simp
  from fire_delivering [OF this assms(3,4,5)] assms(1) show ?thesis
    by (simp add: wake_def split: prod.splits sum.splits)
qed

text \<open>
  The sample state in which Discord refuses the reply as to an unknown message and the
  connection breaks during the fallback: the second failure is not passed over, the
  task ends with it, and the reminder is still in the store.
\<close>

theorem fallback_transport_failure_keeps_reminder:
  "task dropped = Sleeping bus
   \<and> http_faults dropped = [Some (HTTPException 404), Some TransportError]
   \<and> trace (wake dropped) =
        [\<lparr>at_time = 30000000, subject = bus, act = Woke\<rparr>,
         reply_entry 30000000 bus home lobby, send_entry 30000000 bus home lobby]
   \<and> reminders (wake dropped) = [tea, bus]
   \<and> task (wake dropped) = Raised TransportError"
proof -
  have h: "task dropped = Sleeping bus" "guilds dropped (guild_id bus) = Some home"
    "\<not> unavailable home" "channels home (channel_id bus) = Some lobby" "send_messages lobby"
    by (simp_all add: sample_defs)
  have f: "http_faults (emit bus Woke (sleep_until (expires_at bus) dropped)) =
             Some (HTTPException 404) # Some TransportError # []"
    by (simp add: sample_defs)
  have n: "\<not> is_http TransportError"
    by (simp add: is_http_def)
  have e: "expires_at bus = 30000000" "now dropped = 0" "trace dropped = []"
    "reminders dropped = [tea, bus]"
    by (simp_all add: sample_defs)
  show ?thesis
    unfolding wake_delivering [OF h] deliver_fallback_raises [OF f n]
    by (simp add: h e emit_def sleep_until_def) (simp add: sample_defs)
qed

text \<open>
  C5, amended. When the reply to the origin message raises \<^verbatim>\<open>discord.HTTPException\<close>
  (as it does for an unusable origin message; the loop cannot tell this cause from
  another), the loop makes exactly one more attempt, a plain send to the same channel with
  the same content and the same mention policy. If that send returns or raises
  \<^verbatim>\<open>discord.HTTPException\<close>, nothing further is attempted, the reminder is deleted and the
  loop is back at its head. An exception of any other kind, from the fallback or from
  the reply itself, is not caught: the task ends with it, no further attempt is made, and
  the reminder stays in the store.
\<close>

theorem http_failure_falls_back_once:
  assumes "task w = Sleeping r" and "guilds w (guild_id r) = Some g" and "\<not> unavailable g"
    and "channels g (channel_id r) = Some ch" and "send_messages ch" and "api_faults w = []"
  shows "(\<forall>code rest. http_faults w = Some (HTTPException code) # rest \<and> swallowed rest \<longrightarrow>
            trace (wake w) = trace w @
              [\<lparr>at_time = max (now w) (expires_at r), subject = r, act = Woke\<rparr>,
               reply_entry (max (now w) (expires_at r)) r g ch,
               send_entry (max (now w) (expires_at r)) r g ch,
               \<lparr>at_time = max (now w) (expires_at r), subject = r, act = Delete\<rparr>] \<and>
            reminders (wake w) = filter (\<lambda>x. idx x \<noteq> idx r) (reminders w) \<and>
            task (wake w) = AtLoopHead)
       \<and> (\<forall>code e rest. http_faults w = Some (HTTPException code) # Some e # rest \<and> \<not> is_http e \<longrightarrow>
            trace (wake w) = trace w @
              [\<lparr>at_time = max (now w) (expires_at r), subject = r, act = Woke\<rparr>,
               reply_entry (max (now w) (expires_at r)) r g ch,
               send_entry (max (now w) (expires_at r)) r g ch] \<and>
            reminders (wake w) = reminders w \<and>
            task (wake w) = Raised e)
       \<and> (\<forall>e rest. http_faults w = Some e # rest \<and> \<not> is_http e \<longrightarrow>
            trace (wake w) = trace w @
              [\<lparr>at_time = max (now w) (expires_at r), subject = r, act = Woke\<rparr>,
               reply_entry (max (now w) (expires_at r)) r g ch] \<and>
            reminders (wake w) = reminders w \<and>
            task (wake w) = Raised e)"
proof (intro conjI allI impI)
  let ?w1 = "emit r Woke (sleep_until (expires_at r) w)"
  note wk = wake_delivering [OF assms(1-5)]
  {
    fix code rest
    assume h: "http_faults w = Some (HTTPException code) # rest \<and> swallowed rest"
    then have f: "http_faults ?w1 = Some (HTTPException code) # rest" and sw: "swallowed rest"
      by simp_all
    have e: "wake w =
        w\<lparr>now := max (now w) (expires_at r),
          trace := trace w @
              [\<lparr>at_time = max (now w) (expires_at r), subject = r, act = Woke\<rparr>,
               reply_entry (max (now w) (expires_at r)) r g ch,
               send_entry (max (now w) (expires_at r)) r g ch,
               \<lparr>at_time = max (now w) (expires_at r), subject = r, act = Delete\<rparr>],
          http_faults := tl rest, next_wakeup := None,
          reminders := filter (\<lambda>x. idx x \<noteq> idx r) (reminders w), task := AtLoopHead\<rparr>"
      unfolding wk deliver_fallback [OF f sw]
      using assms(6) by (simp add: delete_reminder_ok emit_def sleep_until_def)
    show "trace (wake w) = trace w @
              [\<lparr>at_time = max (now w) (expires_at r), subject = r, act = Woke\<rparr>,
               reply_entry (max (now w) (expires_at r)) r g ch,
               send_entry (max (now w) (expires_at r)) r g ch,
               \<lparr>at_time = max (now w) (expires_at r), subject = r, act = Delete\<rparr>]"
      and "reminders (wake w) = filter (\<lambda>x. idx x \<noteq> idx r) (reminders w)"
      and "task (wake w) = AtLoopHead"
      by (simp_all add: e)
  }
  {
    fix code e rest
    assume h: "http_faults w = Some (HTTPException code) # Some e # rest \<and> \<not> is_http e"
    then have f: "http_faults ?w1 = Some (HTTPException code) # Some e # rest" and n: "\<not> is_http e"
      by simp_all
    have e: "wake w =
        w\<lparr>now := max (now w) (expires_at r),
          trace := trace w @
              [\<lparr>at_time = max (now w) (expires_at r), subject = r, act = Woke\<rparr>,
               reply_entry (max (now w) (expires_at r)) r g ch,
               send_entry (max (now w) (expires_at r)) r g ch],
          http_faults := rest, task := Raised e\<rparr>"
      unfolding wk deliver_fallback_raises [OF f n]
      by (simp add: emit_def sleep_until_def)
    show "trace (wake w) = trace w @
              [\<lparr>at_time = max (now w) (expires_at r), subject = r, act = Woke\<rparr>,
               reply_entry (max (now w) (expires_at r)) r g ch,
               send_entry (max (now w) (expires_at r)) r g ch]"
      and "reminders (wake w) = reminders w"
      and "task (wake w) = Raised e"
      by (simp_all add: e)
  }
  {
    fix e rest
    assume h: "http_faults w = Some e # rest \<and> \<not> is_http e"
    then have f: "http_faults ?w1 = Some e # rest" and n: "\<not> is_http e"
      by simp_all
    have e: "wake w =
        w\<lparr>now := max (now w) (expires_at r),
          trace := trace w @
              [\<lparr>at_time = max (now w) (expires_at r), subject = r, act = Woke\<rparr>,
               reply_entry (max (now w) (expires_at r)) r g ch],
          http_faults := rest, task := Raised e\<rparr>"
      unfolding wk deliver_reply_raises [OF f n]
      by (simp add: emit_def sleep_until_def)
    show "trace (wake w) = trace w @
              [\<lparr>at_time = max (now w) (expires_at r), subject = r, act = Woke\<rparr>,
               reply_entry (max (now w) (expires_at r)) r g ch]"
      and "reminders (wake w) = reminders w"
      and "task (wake w) = Raised e"
      by (simp_all add: e)
  }
qed

theorem http_failure_falls_back_once_witness:
  "task flaky = Sleeping bus \<and> guilds flaky (guild_id bus) = Some home \<and> \<not> unavailable home
   \<and> channels home (channel_id bus) = Some lobby \<and> send_messages lobby \<and> api_faults flaky = []
   \<and> http_faults flaky = Some (HTTPException 400) # [Some (HTTPException 403)]
   \<and> swallowed [Some (HTTPException 403)]
   \<and> trace (wake flaky) =
        [\<lparr>at_time = 30000000, subject = bus, act = Woke\<rparr>,
         reply_entry 30000000 bus home lobby, send_entry 30000000 bus home lobby,
         \<lparr>at_time = 30000000, subject = bus, act = Delete\<rparr>]
   \<and> reminders (wake flaky) = [tea]
   \<and> task (wake flaky) = AtLoopHead
   \<and> task cut_off = Sleeping bus \<and> guilds cut_off (guild_id bus) = Some home
   \<and> api_faults cut_off = []
   \<and> http_faults cut_off = Some TransportError # [] \<and> \<not> is_http TransportError
   \<and> reminders (wake cut_off) = reminders cut_off
   \<and> task (wake cut_off) = Raised TransportError"
proof -
  have h1: "task flaky = Sleeping bus" by (simp add: sample_defs)
  have h2: "guilds flaky (guild_id bus) = Some home" by (simp add: sample_defs)
  have h3: "\<not> unavailable home" by (simp add: sample_defs)
  have h4: "channels home (channel_id bus) = Some lobby" by (simp add: sample_defs)
  have h5: "send_messages lobby" by (simp add: sample_defs)
  have h6: "api_faults flaky = []" by (simp add: sample_defs)
  have h7: "http_faults flaky = Some (HTTPException 400) # [Some (HTTPException 403)] \<and>
            swallowed [Some (HTTPException 403)]"
    by (simp add: sample_defs swallowed_def is_http_def)
  have k1: "task cut_off = Sleeping bus" by (simp add: sample_defs)
  have k2: "guilds cut_off (guild_id bus) = Some home" by (simp add: sample_defs)
  have k6: "api_faults cut_off = []" by (simp add: sample_defs)
  have k7: "http_faults cut_off = Some TransportError # [] \<and> \<not> is_http TransportError"
    by (simp add: sample_defs is_http_def)
  have e: "trace flaky = []" "now flaky = 0" "reminders flaky = [tea, bus]" "idx tea \<noteq> idx bus"
    "expires_at bus = 30000000"
    by (simp_all add: sample_defs)
  from http_failure_falls_back_once [OF h1 h2 h3 h4 h5 h6] h7 have
    "trace (wake flaky) = trace flaky @
              [\<lparr>at_time = max (now flaky) (expires_at bus), subject = bus, act = Woke\<rparr>,
               reply_entry (max (now flaky) (expires_at bus)) bus home lobby,
               send_entry (max (now flaky) (expires_at bus)) bus home lobby,
               \<lparr>at_time = max (now flaky) (expires_at bus), subject = bus, act = Delete\<rparr>]"
    and "reminders (wake flaky) = filter (\<lambda>x. idx x \<noteq> idx bus) (reminders flaky)"
    and "task (wake flaky) = AtLoopHead"
    by blast+
  then have a: "trace (wake flaky) =
        [\<lparr>at_time = 30000000, subject = bus, act = Woke\<rparr>,
         reply_entry 30000000 bus home lobby, send_entry 30000000 bus home lobby,
         \<lparr>at_time = 30000000, subject = bus, act = Delete\<rparr>]"
    "reminders (wake flaky) = [tea]" "task (wake flaky) = AtLoopHead"
    by (simp_all add: e)
  from http_failure_falls_back_once [OF k1 k2 h3 h4 h5 k6] k7 have
    b: "reminders (wake cut_off) = reminders cut_off" "task (wake cut_off) = Raised TransportError"
    by blast+
  from h1 h2 h3 h4 h5 h6 h7 k1 k2 k6 k7 a b show ?thesis
    by blast
qed

subsection \<open>Cancelling\<close>

lemma find_idx_unique:
  assumes "distinct (map idx rs)" and "find (\<lambda>r. idx r = i) rs = Some r"
    and "x \<in> set rs" and "idx x = i"
  shows "x = r"
proof -
  from assms(2) have "r \<in> set rs" "idx r = i"
    by (auto simp: find_Some_iff)
  moreover from assms(1) have "inj_on idx (set rs)"
    by (simp add: distinct_map)
  ultimately show ?thesis using assms(3,4)
    by (auto dest: inj_onD)
qed

lemma find_idx_none: "find (\<lambda>r. idx r = i) rs = None \<Longrightarrow> x \<in> set rs \<Longrightarrow> idx x \<noteq> i"
  by (auto simp: find_None_iff)

lemma find_idx_some: "find (\<lambda>r. idx r = i) rs = Some r \<Longrightarrow> i \<in> idx ` set rs"
  by (auto simp: find_Some_iff)

lemma distinct_idx_filter: "distinct (map idx rs) \<Longrightarrow> distinct (map idx (filter P rs))"
  by (simp add: distinct_map_filter)

lemma api_get_reminder_cases:
  "api_get_reminder i w = (res, w1) \<Longrightarrow>
   reminders w1 = reminders w \<and>
   (res = Inl ApiError \<or>
    (res = Inl NotFound \<and> find (\<lambda>r. idx r = i) (reminders w) = None) \<or>
    (\<exists>r. res = Inr r \<and> find (\<lambda>r. idx r = i) (reminders w) = Some r))"
  by (auto simp: api_get_reminder_def api_fault_def split: list.splits option.splits if_splits)

lemma api_delete_reminder_cases:
  "api_delete_reminder i w = (res, w1) \<Longrightarrow>
   reminders w1 = filter (\<lambda>r. idx r \<noteq> i) (reminders w) \<or> reminders w1 = reminders w"
  by (auto simp: api_delete_reminder_def api_fault_def
           split: list.splits option.splits fault.splits if_splits)

lemma cancel_each_safe:
  "distinct (map idx (reminders w)) \<Longrightarrow>
   set (reminders (snd (cancel_each author ids deleted w))) \<subseteq> set (reminders w) \<and>
   (\<forall>r \<in> set (reminders w). r \<notin> set (reminders (snd (cancel_each author ids deleted w)))
        \<longrightarrow> own author ids r)"
proof (induction ids arbitrary: deleted w)
  case Nil
  then show ?case by simp
next
  case (Cons i rest)
  obtain res w1 where g: "api_get_reminder i w = (res, w1)"
    by (cases "api_get_reminder i w")
  note gc = api_get_reminder_cases [OF g]
  then have r1: "reminders w1 = reminders w" by simp
  with Cons.prems have d1: "distinct (map idx (reminders w1))" by simp
  have weaken: "own author rest r \<Longrightarrow> own author (i # rest) r" for r
    by (simp add: own_def)
  from gc consider
      (fault) "res = Inl ApiError"
    | (missing) "res = Inl NotFound"
    | (found) r where "res = Inr r" "find (\<lambda>r. idx r = i) (reminders w) = Some r"
    by blast
  then show ?case
  proof cases
    case fault
    with g r1 show ?thesis by simp
  next
    case missing
    with g have "cancel_each author (i # rest) deleted w = cancel_each author rest deleted w1"
      by simp
    with Cons.IH [OF d1, of deleted] r1 weaken show ?thesis
      by auto
  next
    case found
    show ?thesis
    proof (cases "user_id r = author")
      case False
      with g found have "cancel_each author (i # rest) deleted w = cancel_each author rest deleted w1"
        by simp
      with Cons.IH [OF d1, of deleted] r1 weaken show ?thesis
        by auto
    next
      case True
      obtain res2 w2 where d: "api_delete_reminder i w1 = (res2, w2)"
        by (cases "api_delete_reminder i w1")
      from api_delete_reminder_cases [OF d] r1
      have st: "reminders w2 = filter (\<lambda>r. idx r \<noteq> i) (reminders w) \<or> reminders w2 = reminders w"
        by simp
      have o: "own author (i # rest) x" if "x \<in> set (reminders w)" "idx x = i" for x
        using find_idx_unique [OF Cons.prems found(2) that] True that(2) by (simp add: own_def)
      have step: "set (reminders w2) \<subseteq> set (reminders w) \<and>
          (\<forall>x \<in> set (reminders w). x \<notin> set (reminders w2) \<longrightarrow> own author (i # rest) x)"
        using st o by auto
      have d2: "distinct (map idx (reminders w2))"
        using st Cons.prems by (auto simp: distinct_idx_filter)
      have "snd (cancel_each author (i # rest) deleted w) = w2 \<or>
            (\<exists>k. snd (cancel_each author (i # rest) deleted w) = snd (cancel_each author rest k w2))"
        using g found True d by (auto split: sum.splits)
      then show ?thesis
      proof
        assume "snd (cancel_each author (i # rest) deleted w) = w2"
        with step show ?thesis by simp
      next
        assume "\<exists>k. snd (cancel_each author (i # rest) deleted w) =
                    snd (cancel_each author rest k w2)"
        then obtain k where e: "snd (cancel_each author (i # rest) deleted w) =
                    snd (cancel_each author rest k w2)"
          by blast
        from Cons.IH [OF d2, of k] step weaken show ?thesis
          unfolding e by blast
      qed
    qed
  qed
qed

lemma api_get_reminder_ok:
  "api_faults w = [] \<Longrightarrow>
   api_get_reminder i w =
     (case find (\<lambda>r. idx r = i) (reminders w) of
        None \<Rightarrow> (Inl NotFound, w) | Some r \<Rightarrow> (Inr r, w))"
  by (simp add: api_get_reminder_def api_fault_def)

lemma api_delete_reminder_ok:
  "api_faults w = [] \<Longrightarrow> i \<in> idx ` set (reminders w) \<Longrightarrow>
   api_delete_reminder i w = (Inr (), w\<lparr>reminders := filter (\<lambda>r. idx r \<noteq> i) (reminders w)\<rparr>)"
  by (simp add: api_delete_reminder_def api_fault_def)

lemma cancel_each_ok:
  "api_faults w = [] \<Longrightarrow> distinct (map idx (reminders w)) \<Longrightarrow>
   \<exists>n. cancel_each author ids deleted w =
     (Inr n, w\<lparr>reminders := filter (\<lambda>r. \<not> own author ids r) (reminders w)\<rparr>)"
proof (induction ids arbitrary: deleted w)
  case Nil
  then show ?case by (simp add: own_def)
next
  case (Cons i rest)
  note g = api_get_reminder_ok [OF Cons.prems(1), of i]
  show ?case
  proof (cases "find (\<lambda>r. idx r = i) (reminders w)")
    case None
    then have "filter (\<lambda>r. \<not> own author (i # rest) r) (reminders w) =
               filter (\<lambda>r. \<not> own author rest r) (reminders w)"
      by (intro filter_cong refl) (auto simp: own_def dest: find_idx_none)
    moreover have "cancel_each author (i # rest) deleted w = cancel_each author rest deleted w"
      using g None by simp
    ultimately show ?thesis
      using Cons.IH [OF Cons.prems, of deleted] by simp
  next
    case (Some r)
    show ?thesis
    proof (cases "user_id r = author")
      case False
      have "filter (\<lambda>r. \<not> own author (i # rest) r) (reminders w) =
            filter (\<lambda>r. \<not> own author rest r) (reminders w)"
        using find_idx_unique [OF Cons.prems(2) Some] False
        by (intro filter_cong refl) (auto simp: own_def)
      moreover have "cancel_each author (i # rest) deleted w = cancel_each author rest deleted w"
        using g Some False by simp
      ultimately show ?thesis
        using Cons.IH [OF Cons.prems, of deleted] by simp
    next
      case True
      let ?w2 = "w\<lparr>reminders := filter (\<lambda>r. idx r \<noteq> i) (reminders w)\<rparr>"
      have d: "api_delete_reminder i w = (Inr (), ?w2)"
        using api_delete_reminder_ok [OF Cons.prems(1) find_idx_some [OF Some]] .
      have e: "cancel_each author (i # rest) deleted w = cancel_each author rest (deleted + 1) ?w2"
        using g Some True d by simp
      have f: "filter (\<lambda>x. idx x \<noteq> i \<and> \<not> own author rest x) (reminders w) =
               filter (\<lambda>r. \<not> own author (i # rest) r) (reminders w)"
        using find_idx_unique [OF Cons.prems(2) Some] True
        by (intro filter_cong refl) (auto simp: own_def)
      have "api_faults ?w2 = []" "distinct (map idx (reminders ?w2))"
        using Cons.prems by (simp_all add: distinct_idx_filter)
      from Cons.IH [OF this, of "deleted + 1"] show ?thesis
        unfolding e by (simp add: f)
    qed
  qed
qed

text \<open>
  C9. \<^verbatim>\<open>remind cancel\<close> removes a row only if its id is among the ids given and its
  owner is the author of the command (the store holding one row per id); this holds
  even when the API client fails on the way. When the API client does not fail, the
  command raises nothing and the store afterwards is the store before without exactly
  those rows: ids that are absent or belong to someone else change nothing.
\<close>

theorem cancel_only_own_reminders:
  assumes "distinct (map idx (reminders w))"
  shows "set (reminders (snd (remind_cancel c ids w))) \<subseteq> set (reminders w)
     \<and> (\<forall>r \<in> set (reminders w). r \<notin> set (reminders (snd (remind_cancel c ids w)))
            \<longrightarrow> idx r \<in> set ids \<and> user_id r = ctx_author c)
     \<and> (api_faults w = [] \<longrightarrow>
           (\<exists>resp. fst (remind_cancel c ids w) = Inr resp) \<and>
           reminders (snd (remind_cancel c ids w)) =
             filter (\<lambda>r. \<not> (idx r \<in> set ids \<and> user_id r = ctx_author c)) (reminders w))"
proof -
  obtain res w1 where ce: "cancel_each (ctx_author c) ids 0 w = (res, w1)"
    by (cases "cancel_each (ctx_author c) ids 0 w")
  have rs: "reminders (snd (remind_cancel c ids w)) = reminders w1"
    using ce by (auto simp: remind_cancel_def restart_def split: sum.splits)
  have safe: "set (reminders w1) \<subseteq> set (reminders w) \<and>
     (\<forall>r \<in> set (reminders w). r \<notin> set (reminders w1) \<longrightarrow> own (ctx_author c) ids r)"
    using cancel_each_safe [OF assms, of "ctx_author c" ids 0] ce by simp
  have ok: "(\<exists>resp. fst (remind_cancel c ids w) = Inr resp) \<and>
      reminders w1 = filter (\<lambda>r. \<not> own (ctx_author c) ids r) (reminders w)"
    if nf: "api_faults w = []"
  proof -
    from cancel_each_ok [OF nf assms, of "ctx_author c" ids 0] ce
    obtain n where "res = Inr n"
      "w1 = w\<lparr>reminders := filter (\<lambda>r. \<not> own (ctx_author c) ids r) (reminders w)\<rparr>"
      by auto
    with ce show ?thesis
      by (simp add: remind_cancel_def)
  qed
  from safe ok show ?thesis
    unfolding rs own_def by blast
qed

theorem cancel_only_own_reminders_witness:
  "distinct (map idx (reminders world0)) \<and> api_faults world0 = []
   \<and> tea \<in> set (reminders world0) \<and> tea \<notin> set (reminders (snd (remind_cancel alice [1, 2, 9] world0)))
   \<and> idx tea \<in> set [1, 2, 9] \<and> user_id tea = ctx_author alice
   \<and> fst (remind_cancel alice [1, 2, 9] world0) = Inr (Deleted 1)
   \<and> reminders (snd (remind_cancel alice [1, 2, 9] world0)) = [bus]"
proof -
  have h1: "distinct (map idx (reminders world0))" by (simp add: sample_defs)
  have h2: "api_faults world0 = []" by (simp add: sample_defs)
  have e: "reminders world0 = [tea, bus]" "idx tea = 1" "idx bus = 2" "user_id tea = 10"
    "user_id bus = 11" "ctx_author alice = 10" "tea \<noteq> bus"
    by (simp_all add: sample_defs)
  from cancel_only_own_reminders [OF h1, of alice "[1, 2, 9]"] h2
  have r: "reminders (snd (remind_cancel alice [1, 2, 9] world0)) = [bus]"
    and s: "\<forall>r \<in> set (reminders world0).
              r \<notin> set (reminders (snd (remind_cancel alice [1, 2, 9] world0)))
              \<longrightarrow> idx r \<in> set [1, 2, 9] \<and> user_id r = ctx_author alice"
    by (simp_all add: e)
  have v: "fst (remind_cancel alice [1, 2, 9] world0) = Inr (Deleted 1)"
    by (simp add: remind_cancel_def api_get_reminder_def api_delete_reminder_def api_fault_def
          sample_defs)
  have "tea \<in> set (reminders world0)"
    "tea \<notin> set (reminders (snd (remind_cancel alice [1, 2, 9] world0)))"
    unfolding r by (simp_all add: e)
  with s h1 h2 r v show ?thesis
    by blast
qed

subsection \<open>Fetching, and restarting the loop\<close>

lemma set_pending: "set (pending s w) = {x \<in> set (reminders w). shard_key x = s}"
  by (auto simp: pending_def)

lemma sorted_pending: "sorted (map expires_at (pending s w))"
  by (simp add: pending_def)

lemma pending_hd_earliest:
  assumes "pending (shard_id w) w = r # rest"
  shows "earliest r w"
proof -
  have "r \<in> set (pending (shard_id w) w)" using assms by simp
  then have a: "r \<in> set (reminders w)" "shard_key r = shard_id w"
    by (simp_all add: set_pending)
  have "expires_at r \<le> expires_at x" if "x \<in> set (reminders w)" "shard_key x = shard_id w" for x
  proof -
    from that have "x \<in> set (r # rest)"
      using set_pending [of "shard_id w" w] assms by auto
    moreover have "sorted (expires_at r # map expires_at rest)"
      using sorted_pending [of "shard_id w" w] assms by simp
    ultimately show ?thesis by auto
  qed
  with a show ?thesis by (simp add: earliest_def)
qed

lemma loop_head_ok:
  "\<not> is_closed w \<Longrightarrow> api_faults w = [] \<Longrightarrow>
   loop_head w =
     (case pending (shard_id w) w of
        [] \<Rightarrow> w\<lparr>task := Returned\<rparr>
      | r # rest \<Rightarrow> w\<lparr>next_wakeup := Some (expires_at r), task := Sleeping r\<rparr>)"
  by (simp add: loop_head_def api_get_reminders_def split: list.splits)

lemma loop_head_fault:
  "\<not> is_closed w \<Longrightarrow> api_faults w = Some f # fs \<Longrightarrow>
   loop_head w = w\<lparr>api_faults := fs, task := Raised ApiError\<rparr>"
  by (simp add: loop_head_def api_get_reminders_def api_fault_def)

lemma fulfill_reminders_returned [simp]:
  "task w = Returned \<Longrightarrow> fulfill_reminders n w = w"
  by (cases n) simp_all

lemma fulfill_reminders_raised [simp]:
  "task w = Raised e \<Longrightarrow> fulfill_reminders n w = w"
  by (cases n) simp_all

lemma empty_store_returns:
  assumes "\<not> is_closed w" "api_faults w = []" "pending (shard_id w) w = []" "task w = AtLoopHead"
  shows "fulfill_reminders (Suc n) w = w\<lparr>task := Returned\<rparr>"
  using assms by (simp add: loop_head_ok)

lemma remind_ok:
  assumes "api_faults w = []"
  shows "\<exists>resp. remind c time msg w =
     (Inr resp,
      (if (case next_wakeup w of None \<Rightarrow> True | Some t \<Rightarrow> due_of time w < t)
       then restart else (\<lambda>w. w))
        (w\<lparr>reminders := reminders w @ [created c time msg w], next_id := next_id w + 1\<rparr>))"
  using assms
  by (cases msg)
     (simp_all add: remind_def api_create_reminder_def Let_def due_of_def created_def restart_def
        split: option.splits)

lemma cancel_each_count:
  "api_faults w = [] \<Longrightarrow> distinct (map idx (reminders w)) \<Longrightarrow>
   cancel_each author ids deleted w = (Inr n, w') \<Longrightarrow>
   deleted \<le> n \<and> ((\<exists>r \<in> set (reminders w). own author ids r) \<longrightarrow> deleted < n)"
proof (induction ids arbitrary: deleted w)
  case Nil
  then show ?case by (simp add: own_def)
next
  case (Cons i rest)
  note g = api_get_reminder_ok [OF Cons.prems(1), of i]
  show ?case
  proof (cases "find (\<lambda>r. idx r = i) (reminders w)")
    case None
    then have o: "own author (i # rest) r \<Longrightarrow> own author rest r" if "r \<in> set (reminders w)" for r
      using find_idx_none [OF None that] by (auto simp: own_def)
    have "cancel_each author rest deleted w = (Inr n, w')"
      using g None Cons.prems(3) by simp
    from Cons.IH [OF Cons.prems(1,2) this] o show ?thesis by blast
  next
    case (Some r)
    show ?thesis
    proof (cases "user_id r = author")
      case False
      have o: "own author (i # rest) x \<Longrightarrow> own author rest x" if "x \<in> set (reminders w)" for x
        using find_idx_unique [OF Cons.prems(2) Some that] False by (auto simp: own_def)
      have "cancel_each author rest deleted w = (Inr n, w')"
        using g Some False Cons.prems(3) by simp
      from Cons.IH [OF Cons.prems(1,2) this] o show ?thesis by blast
    next
      case True
      let ?w2 = "w\<lparr>reminders := filter (\<lambda>r. idx r \<noteq> i) (reminders w)\<rparr>"
      have d: "api_delete_reminder i w = (Inr (), ?w2)"
        using api_delete_reminder_ok [OF Cons.prems(1) find_idx_some [OF Some]] .
      have e: "cancel_each author rest (deleted + 1) ?w2 = (Inr n, w')"
        using g Some True d Cons.prems(3) by simp
      have "api_faults ?w2 = []" "distinct (map idx (reminders ?w2))"
        using Cons.prems by (simp_all add: distinct_idx_filter)
      from Cons.IH [OF this e] show ?thesis by simp
    qed
  qed
qed

lemma remind_cancel_restarts:
  assumes nf: "api_faults w = []" and d: "distinct (map idx (reminders w))"
    and nw: "next_wakeup w \<noteq> None"
    and r0: "r0 \<in> set (reminders w)" "user_id r0 = ctx_author c" "idx r0 \<in> set ids"
  shows "snd (remind_cancel c ids w) =
           w\<lparr>reminders := filter (\<lambda>r. \<not> own (ctx_author c) ids r) (reminders w),
              task := AtLoopHead\<rparr>"
proof -
  from cancel_each_ok [OF nf d, of "ctx_author c" ids 0]
  obtain n where ce: "cancel_each (ctx_author c) ids 0 w =
      (Inr n, w\<lparr>reminders := filter (\<lambda>r. \<not> own (ctx_author c) ids r) (reminders w)\<rparr>)"
    by blast
  have "own (ctx_author c) ids r0" using r0 by (simp add: own_def)
  with cancel_each_count [OF nf d ce] r0(1) have "0 < n" by blast
  with ce nw show ?thesis
    by (simp add: remind_cancel_def restart_def)
qed

lemma loop_head_sleeps_or_returns:
  assumes "\<not> is_closed w" and "api_faults w = []"
  shows "(pending (shard_id w) w = [] \<and> task (loop_head w) = Returned) \<or>
         (\<exists>r. task (loop_head w) = Sleeping r \<and> next_wakeup (loop_head w) = Some (expires_at r)
               \<and> earliest r w)"
proof (cases "pending (shard_id w) w")
  case Nil
  with assms show ?thesis by (simp add: loop_head_ok)
next
  case (Cons r rest)
  with assms pending_hd_earliest [OF Cons] show ?thesis
    by (simp add: loop_head_ok)
qed

lemma pending_nonempty: "r \<in> set (reminders w) \<Longrightarrow> shard_key r = s \<Longrightarrow> pending s w \<noteq> []"
  using set_pending [of s w] by (metis (mono_tags, lifting) empty_iff empty_set mem_Collect_eq)

lemma remind_restarts:
  assumes "api_faults w = []"
    and "case next_wakeup w of None \<Rightarrow> True | Some t \<Rightarrow> due_of time w < t"
  shows "snd (remind c time msg w) =
           w\<lparr>reminders := reminders w @ [created c time msg w], next_id := next_id w + 1,
              task := AtLoopHead\<rparr>"
  using remind_ok [OF assms(1), of c time msg] assms(2) by (auto simp: restart_def)

lemma remind_then_fetch:
  assumes "api_faults w = []" and "\<not> is_closed w"
    and "case next_wakeup w of None \<Rightarrow> True | Some t \<Rightarrow> due_of time w < t"
  shows "task (snd (remind c time msg w)) = AtLoopHead \<and>
         (\<exists>r. task (loop_head (snd (remind c time msg w))) = Sleeping r \<and>
              next_wakeup (loop_head (snd (remind c time msg w))) = Some (expires_at r) \<and>
              earliest r (snd (remind c time msg w)))"
proof -
  let ?new = "created c time msg w"
  let ?w1 = "w\<lparr>reminders := reminders w @ [?new], next_id := next_id w + 1, task := AtLoopHead\<rparr>"
  note s = remind_restarts [OF assms(1,3), of c msg]
  have ok1: "\<not> is_closed ?w1" "api_faults ?w1 = []"
    using assms by simp_all
  have ne: "pending (shard_id ?w1) ?w1 \<noteq> []"
    by (rule pending_nonempty [of ?new]) (simp_all add: created_def)
  from loop_head_sleeps_or_returns [OF ok1] ne show ?thesis
    unfolding s by auto
qed

lemma remind_new_first:
  assumes "api_faults w = []" and "\<not> is_closed w"
    and "case next_wakeup w of None \<Rightarrow> True | Some t \<Rightarrow> due_of time w < t"
    and lt: "\<And>x. x \<in> set (reminders w) \<Longrightarrow> shard_key x = shard_id w \<Longrightarrow> due_of time w < expires_at x"
  shows "task (loop_head (snd (remind c time msg w))) = Sleeping (created c time msg w)"
proof -
  let ?new = "created c time msg w"
  from remind_then_fetch [OF assms(1-3), of c msg]
  obtain r where r: "task (loop_head (snd (remind c time msg w))) = Sleeping r"
    "earliest r (snd (remind c time msg w))"
    by blast
  note s = remind_restarts [OF assms(1,3), of c msg]
  have n: "expires_at ?new = due_of time w" "shard_key ?new = shard_id w"
    by (simp_all add: created_def)
  have "r = ?new"
  proof (rule ccontr)
    assume "r \<noteq> ?new"
    with r(2) have "r \<in> set (reminders w)" "shard_key r = shard_id w"
      and "expires_at r \<le> expires_at ?new"
      unfolding s by (auto simp: earliest_def n)
    with lt [of r] n show False by simp
  qed
  with r(1) show ?thesis by simp
qed

lemma remind_cancel_then_fetch:
  assumes "api_faults w = []" and "\<not> is_closed w" and "next_wakeup w \<noteq> None"
    and "r0 \<in> set (reminders w)" and "user_id r0 = ctx_author c" and "idx r0 \<in> set ids"
    and "distinct (map idx (reminders w))"
  shows "task (snd (remind_cancel c ids w)) = AtLoopHead \<and>
         r0 \<notin> set (reminders (snd (remind_cancel c ids w))) \<and>
         ((pending (shard_id w) (snd (remind_cancel c ids w)) = [] \<and>
           task (loop_head (snd (remind_cancel c ids w))) = Returned) \<or>
          (\<exists>r. task (loop_head (snd (remind_cancel c ids w))) = Sleeping r \<and>
               next_wakeup (loop_head (snd (remind_cancel c ids w))) = Some (expires_at r) \<and>
               earliest r (snd (remind_cancel c ids w))))"
proof -
  let ?w2 = "w\<lparr>reminders := filter (\<lambda>r. \<not> own (ctx_author c) ids r) (reminders w),
            task := AtLoopHead\<rparr>"
  have s: "snd (remind_cancel c ids w) = ?w2"
    by (rule remind_cancel_restarts [OF assms(1,7,3,4,5,6)])
  have c2: "\<not> is_closed ?w2" "api_faults ?w2 = []"
    using assms by simp_all
  have "own (ctx_author c) ids r0" using assms by (simp add: own_def)
  with loop_head_sleeps_or_returns [OF c2] show ?thesis
    unfolding s by simp
qed

text \<open>
  C1. A reminder created while no wakeup is pending does not always restart the loop. A
  task that finds the store empty returns without clearing \<^verbatim>\<open>_next\<close>, which only
  \<^verbatim>\<open>_delete_reminder\<close> and \<^verbatim>\<open>_reschedule_reminder\<close> reset. The loop is asleep on the only reminder, due at 30 s; its owner cancels it; the
  new task fetches, finds nothing and returns, with \<^verbatim>\<open>_next\<close> still at 30 s. A
  \<^verbatim>\<open>remind\<close> for 60 s is then stored and acknowledged, but it starts no task, since
  \<^verbatim>\<open>_next\<close> is neither unset nor later than 60 s: no wakeup is pending, the loop is not
  running, and however long it is given it never acts on the new reminder.
\<close>

theorem stale_next_leaves_reminder_unfired:
  "task lonely = Sleeping bus \<and> next_wakeup lonely = Some 30000000 \<and> reminders lonely = [bus]
   \<and> reminders cancelled = [] \<and> task cancelled = Returned
   \<and> next_wakeup cancelled = Some 30000000
   \<and> fst (remind alice (Datetime 60000000) (Some ''tea'') cancelled) =
       Inr (WillRemind ''about tea '' (Datetime 60000000) 3)
   \<and> map expires_at (reminders forgotten) = [60000000]
   \<and> task forgotten = Returned
   \<and> fulfill_reminders 100 forgotten = forgotten
   \<and> trace forgotten = []"
proof -
  have l: "api_faults lonely = []" "distinct (map idx (reminders lonely))"
    "next_wakeup lonely \<noteq> None" "bus \<in> set (reminders lonely)" "user_id bus = ctx_author bob"
    "idx bus \<in> set [2]"
    by (simp_all add: sample_defs)
  have c: "cancelled = lonely\<lparr>reminders := [], task := Returned\<rparr>"
    unfolding cancelled_def remind_cancel_restarts [OF l]
    by (simp add: loop_head_ok pending_def own_def sample_defs)
  have f: "remind alice (Datetime 60000000) (Some ''tea'') cancelled =
      (Inr (WillRemind ''about tea '' (Datetime 60000000) 3),
       cancelled\<lparr>reminders := [created alice (Datetime 60000000) (Some ''tea'') cancelled],
                 next_id := 4\<rparr>)"
    unfolding c
    by (simp add: remind_def api_create_reminder_def Let_def created_def due_of_def sample_defs)
  have t: "task forgotten = Returned"
    unfolding forgotten_def f by (simp add: c)
  show ?thesis
    using t unfolding forgotten_def f
    by (simp add: c created_def due_of_def) (simp add: sample_defs)
qed

subsection \<open>The end of the loop\<close>

text \<open>
  The sample state with an empty store: after three steps the coroutine has returned,
  the bot still being open.
\<close>

theorem empty_store_loop_has_returned:
  "\<not> is_closed idle \<and> task idle = AtLoopHead \<and> pending (shard_id idle) idle = []
   \<and> task (fulfill_reminders 3 idle) = Returned"
  by (simp add: numeral_3_eq_3 loop_head_ok pending_def sample_defs)

text \<open>
  C7, amended. When the loop fetches and the store has no reminder for its shard, the
  coroutine returns: the task is over and nothing else has changed. A later \<^verbatim>\<open>remind\<close>
  that finds \<^verbatim>\<open>_next\<close> unset or later than the new due time starts a new task, which
  fetches and goes to sleep on the reminder just created.
\<close>

theorem empty_store_ends_task:
  assumes "\<not> is_closed w" and "api_faults w = []" and "pending (shard_id w) w = []"
    and "task w = AtLoopHead"
  shows "fulfill_reminders (Suc n) w = w\<lparr>task := Returned\<rparr>
     \<and> ((case next_wakeup w of None \<Rightarrow> True | Some t \<Rightarrow> due_of time w < t) \<longrightarrow>
          task (snd (remind c time msg (w\<lparr>task := Returned\<rparr>))) = AtLoopHead \<and>
          task (loop_head (snd (remind c time msg (w\<lparr>task := Returned\<rparr>)))) =
            Sleeping (created c time msg w))"
proof -
  let ?w = "w\<lparr>task := Returned\<rparr>"
  have e: "due_of time ?w = due_of time w" "created c time msg ?w = created c time msg w"
    by (simp_all add: due_of_def created_def split: time_arg.splits)
  have p: "api_faults ?w = []" "\<not> is_closed ?w" using assms by simp_all
  have none: False if "x \<in> set (reminders ?w)" "shard_key x = shard_id ?w" for x
    using that pending_nonempty [of x w "shard_id w"] assms(3) by simp
  have "task (snd (remind c time msg ?w)) = AtLoopHead \<and>
        task (loop_head (snd (remind c time msg ?w))) = Sleeping (created c time msg w)"
    if cond: "case next_wakeup w of None \<Rightarrow> True | Some t \<Rightarrow> due_of time w < t"
  proof -
    from cond have cond': "case next_wakeup ?w of None \<Rightarrow> True | Some t \<Rightarrow> due_of time ?w < t"
      by (simp add: e split: option.splits)
    from remind_then_fetch [OF p cond', of c msg] remind_new_first [OF p cond', of c msg] none
    show ?thesis by (auto simp: e)
  qed
  with empty_store_returns [OF assms, of n] show ?thesis by blast
qed

theorem empty_store_ends_task_witness:
  "\<not> is_closed idle \<and> api_faults idle = [] \<and> pending (shard_id idle) idle = []
   \<and> task idle = AtLoopHead
   \<and> fulfill_reminders (Suc 0) idle = idle\<lparr>task := Returned\<rparr>
   \<and> task (snd (remind alice (Timedelta 5000000) None (idle\<lparr>task := Returned\<rparr>))) = AtLoopHead
   \<and> task (loop_head (snd (remind alice (Timedelta 5000000) None (idle\<lparr>task := Returned\<rparr>)))) =
       Sleeping \<lparr>idx = 3, user_id = 10, guild_id = 100, channel_id = 1000, message_id = 6000,
                 expires_at = 5000000, message = ''something'', shard_key = 0\<rparr>"
proof -
  have h: "\<not> is_closed idle" "api_faults idle = []" "pending (shard_id idle) idle = []"
    "task idle = AtLoopHead"
    by (simp_all add: pending_def sample_defs)
  have c: "case next_wakeup idle of None \<Rightarrow> True | Some t \<Rightarrow> due_of (Timedelta 5000000) idle < t"
    by (simp add: sample_defs)
  have n: "created alice (Timedelta 5000000) None idle =
      \<lparr>idx = 3, user_id = 10, guild_id = 100, channel_id = 1000, message_id = 6000,
       expires_at = 5000000, message = ''something'', shard_key = 0\<rparr>"
    by (simp add: created_def due_of_def sample_defs)
  from empty_store_ends_task [OF h, where n = 0 and time = "Timedelta 5000000" and c = alice and msg = None] c h show ?thesis
    unfolding n by blast
qed

lemma delete_reminder_fault:
  "api_faults w = Some f # fs \<Longrightarrow> fst (delete_reminder i w) = Inl ApiError"
  by (cases f) (simp_all add: delete_reminder_def api_delete_reminder_def api_fault_def)

lemma reschedule_reminder_fault:
  "api_faults w = Some f # fs \<Longrightarrow> fst (reschedule_reminder i t w) = Inl ApiError"
  by (cases f) (simp_all add: reschedule_reminder_def api_update_reminder_def api_fault_def)

lemma deliver_outcome:
  "api_faults (snd (deliver r g ch w)) = api_faults w \<and>
   (fst (deliver r g ch w) = Inr () \<or>
    (\<exists>e. fst (deliver r g ch w) = Inl e \<and> \<not> is_http e))"
proof (cases "http_faults w")
  case Nil
  then show ?thesis by (simp add: deliver_replied)
next
  case (Cons a rest)
  show ?thesis
  proof (cases a)
    case None
    with Cons show ?thesis by (simp add: deliver_replied)
  next
    case (Some e)
    show ?thesis
    proof (cases "is_http e")
      case False
      with Cons Some show ?thesis by (simp add: deliver_reply_raises)
    next
      case True
      then obtain code where e: "e = HTTPException code"
        by (cases e) (simp_all add: is_http_def)
      show ?thesis
      proof (cases "swallowed rest")
        case True
        with Cons Some e show ?thesis by (simp add: deliver_fallback)
      next
        case False
        then obtain e2 rest2 where r: "rest = Some e2 # rest2" "\<not> is_http e2"
          by (auto simp: swallowed_def split: list.splits option.splits)
        with Cons Some e show ?thesis by (simp add: deliver_fallback_raises)
      qed
    qed
  qed
qed

lemma fire_fault:
  assumes "api_faults w = Some f # fs"
  shows "fst (fire r w) = Inl ApiError \<or>
         (\<exists>e. fst (fire r w) = Inl e \<and> \<not> is_http e \<and> api_faults (snd (fire r w)) = Some f # fs)"
proof -
  have em: "api_faults (emit r a w') = Some f # fs" if "api_faults w' = Some f # fs" for a w'
    using that by simp
  show ?thesis
  proof (cases "guilds w (guild_id r)")
    case None
    with delete_reminder_fault [OF em [OF assms]] show ?thesis
      by (simp add: fire_def)
  next
    case (Some g)
    show ?thesis
    proof (cases "unavailable g")
      case True
      with Some reschedule_reminder_fault [OF em [OF assms]] show ?thesis
        by (simp add: fire_def)
    next
      case False
      show ?thesis
      proof (cases "channels g (channel_id r)")
        case None
        with Some False delete_reminder_fault [OF em [OF assms]] show ?thesis
          by (simp add: fire_def)
      next
        case ch: (Some ch)
        show ?thesis
        proof (cases "send_messages ch")
          case False
          with Some \<open>\<not> unavailable g\<close> ch delete_reminder_fault [OF em [OF assms]]
          show ?thesis
            by (simp add: fire_def)
        next
          case True
          obtain res w1 where d: "deliver r g ch w = (res, w1)"
            by (cases "deliver r g ch w")
          with deliver_outcome [of r g ch w] assms
          have w1: "api_faults w1 = Some f # fs"
            and res: "res = Inr () \<or> (\<exists>e. res = Inl e \<and> \<not> is_http e)"
            by simp_all
          from res show ?thesis
          proof
            assume "res = Inr ()"
            with delete_reminder_fault [OF em [OF w1]] d show ?thesis
              unfolding fire_delivering [OF Some \<open>\<not> unavailable g\<close> ch True] by simp
          next
            assume "\<exists>e. res = Inl e \<and> \<not> is_http e"
            with d w1 show ?thesis
              unfolding fire_delivering [OF Some \<open>\<not> unavailable g\<close> ch True] by auto
          qed
        qed
      qed
    qed
  qed
qed

text \<open>
  The sample state with the API client failing on the fetch: the coroutine has ended
  with the error, both reminders still in the store, and it has made no call at all.
\<close>

theorem store_error_loop_has_ended:
  "\<not> is_closed broken \<and> task broken = AtLoopHead \<and> api_faults broken = [Some Unsent]
   \<and> task (fulfill_reminders 10 broken) = Raised ApiError
   \<and> reminders (fulfill_reminders 10 broken) = [tea, bus]
   \<and> trace (fulfill_reminders 10 broken) = []"
proof -
  have h: "\<not> is_closed broken" "api_faults broken = [Some Unsent]" "task broken = AtLoopHead"
    by (simp_all add: sample_defs)
  have "fulfill_reminders 10 broken = fulfill_reminders 9 (loop_head broken)"
    using h(3) by (simp add: numeral_eq_Suc)
  also have "loop_head broken = broken\<lparr>api_faults := [], task := Raised ApiError\<rparr>"
    using h by (simp add: loop_head_fault)
  finally show ?thesis
    using h by (simp add: sample_defs)
qed

text \<open>
  C8, amended. An error of the store other than the expected not-found outcome, raised
  while the loop is fetching, or deleting or updating after a wake, is not caught by the
  loop and is not followed by a retry: it leaves the coroutine and ends the task. After
  the failing fetch nothing else has changed. A wake with the failure ahead ends the
  task as well: with the store's error once the delete or the update is called, unless an
  exception of the delivery that the loop does not catch has ended it before the store
  was called.
\<close>

theorem store_error_ends_task:
  assumes "api_faults w = Some f # fs"
  shows "(task w = AtLoopHead \<and> \<not> is_closed w \<longrightarrow>
            fulfill_reminders (Suc n) w = w\<lparr>api_faults := fs, task := Raised ApiError\<rparr>)
       \<and> (\<forall>r. task w = Sleeping r \<longrightarrow>
            fulfill_reminders (Suc n) w = wake w \<and>
            (task (wake w) = Raised ApiError \<or>
             (\<exists>e. task (wake w) = Raised e \<and> \<not> is_http e \<and> api_faults (wake w) = Some f # fs)))
       \<and> (\<forall>r. task w = Sleeping r \<and> http_faults w = [] \<longrightarrow> task (wake w) = Raised ApiError)"
proof (intro conjI allI impI)
  assume "task w = AtLoopHead \<and> \<not> is_closed w"
  with assms show "fulfill_reminders (Suc n) w = w\<lparr>api_faults := fs, task := Raised ApiError\<rparr>"
    by (simp add: loop_head_fault)
next
  fix r
  assume t: "task w = Sleeping r"
  let ?w1 = "emit r Woke (sleep_until (expires_at r) w)"
  have "api_faults ?w1 = Some f # fs"
    using assms by simp
  from fire_fault [OF this, of r]
  show k: "task (wake w) = Raised ApiError \<or>
        (\<exists>e. task (wake w) = Raised e \<and> \<not> is_http e \<and> api_faults (wake w) = Some f # fs)"
    using t by (auto simp: wake_def split: prod.splits sum.splits)
  from t have "fulfill_reminders (Suc n) w = fulfill_reminders n (wake w)"
    by simp
  with k show "fulfill_reminders (Suc n) w = wake w"
    by auto
next
  fix r
  assume t: "task w = Sleeping r \<and> http_faults w = []"
  let ?w1 = "emit r Woke (sleep_until (expires_at r) w)"
  have a: "api_faults ?w1 = Some f # fs" and h: "http_faults ?w1 = []"
    using assms t by simp_all
  have "fst (fire r ?w1) = Inl ApiError"
  proof (cases "\<exists>g ch. guilds ?w1 (guild_id r) = Some g \<and> \<not> unavailable g \<and>
                   channels g (channel_id r) = Some ch \<and> send_messages ch")
    case True
    then obtain g ch where g: "guilds ?w1 (guild_id r) = Some g" "\<not> unavailable g"
      "channels g (channel_id r) = Some ch" "send_messages ch"
      by blast
    have d: "deliver r g ch ?w1 =
        (Inr (), ?w1\<lparr>trace := trace ?w1 @ [reply_entry (now ?w1) r g ch],
                    http_faults := tl (http_faults ?w1)\<rparr>)"
      using h by (intro deliver_replied) simp
    have "api_faults (emit r Delete (?w1\<lparr>trace := trace ?w1 @ [reply_entry (now ?w1) r g ch],
                    http_faults := tl (http_faults ?w1)\<rparr>)) = Some f # fs"
      using assms by simp
    from delete_reminder_fault [OF this] d show ?thesis
      unfolding fire_delivering [OF g] by simp
  next
    case False
    from fire_fault [OF a, of r] show ?thesis
    proof
      assume "fst (fire r ?w1) = Inl ApiError"
      then show ?thesis .
    next
      assume "\<exists>e. fst (fire r ?w1) = Inl e \<and> \<not> is_http e \<and>
                  api_faults (snd (fire r ?w1)) = Some f # fs"
      moreover have "api_faults (snd (delete_reminder i (emit r x ?w1))) \<noteq> Some f # fs" for i x
        using assms
        by (cases f) (simp_all add: delete_reminder_def api_delete_reminder_def api_fault_def)
      moreover have "api_faults (snd (reschedule_reminder i u (emit r x ?w1))) \<noteq> Some f # fs"
        for i u x
        using assms
        by (cases f)
           (simp_all add: reschedule_reminder_def api_update_reminder_def api_fault_def)
      ultimately show ?thesis
        using False by (auto simp: fire_def split: option.splits if_splits)
    qed
  qed
  with t show "task (wake w) = Raised ApiError"
    by (auto simp: wake_def split: prod.splits sum.splits)
qed

theorem store_error_ends_task_witness:
  "api_faults broken = Some Unsent # [] \<and> \<not> is_closed broken \<and> task broken = AtLoopHead
   \<and> fulfill_reminders (Suc 4) broken = broken\<lparr>api_faults := [], task := Raised ApiError\<rparr>
   \<and> api_faults stalled = Some Unanswered # [] \<and> http_faults stalled = []
   \<and> task stalled = Sleeping bus
   \<and> task (wake stalled) = Raised ApiError
   \<and> fulfill_reminders (Suc 4) stalled = wake stalled"
proof -
  have h: "api_faults broken = Some Unsent # []" "task broken = AtLoopHead \<and> \<not> is_closed broken"
    by (simp_all add: sample_defs)
  have k: "api_faults stalled = Some Unanswered # []"
    "task stalled = Sleeping bus \<and> http_faults stalled = []"
    by (simp_all add: sample_defs)
  from store_error_ends_task [OF h(1), where n = 4] h(2)
  have a: "fulfill_reminders (Suc 4) broken = broken\<lparr>api_faults := [], task := Raised ApiError\<rparr>"
    by blast
  from store_error_ends_task [OF k(1), where n = 4] k(2)
  have b: "task (wake stalled) = Raised ApiError" "fulfill_reminders (Suc 4) stalled = wake stalled"
    by blast+
  from h k a b show ?thesis by blast
qed

subsection \<open>The order of the wakes\<close>

lemma acted_refl: "acted r w w"
  by (auto simp: acted_def)













lemma woken_append: "woken (xs @ ys) = woken xs @ woken ys"
  by (simp add: woken_def)











end
